theory Spec2Isabelle
  imports Complex_Main
begin

section \<open>Strings, characters and the host's regular expressions\<close>

text \<open>
  The formula extractor (\<^verbatim>\<open>utils/formula_extractor.py\<close>) and the workbook processor
  (\<^verbatim>\<open>modules/excel_processor.py\<close>) work on Python strings. A Python string is modelled
  as a \<^typ>\<open>string\<close> whose characters stand for the code points 0 to 255, so the
  character classes below are the ones Python's \<^verbatim>\<open>re\<close> module uses for \<^verbatim>\<open>str\<close>
  patterns, restricted to that range.
\<close>

definition is_upper :: "char \<Rightarrow> bool" where
  \<comment> \<open>the class \<^verbatim>\<open>[A-Z]\<close>\<close>
  "is_upper c = (c \<in> set ''ABCDEFGHIJKLMNOPQRSTUVWXYZ'')"

definition is_digit :: "char \<Rightarrow> bool" where
  \<comment> \<open>the class \<^verbatim>\<open>\d\<close>: below code point 256 only the ASCII digits are decimal digits\<close>
  "is_digit c = (c \<in> set ''0123456789'')"

definition is_space :: "char \<Rightarrow> bool" where
  \<comment> \<open>the class \<^verbatim>\<open>\s\<close>\<close>
  "is_space c = ((of_char c :: nat) \<in> {9, 10, 11, 12, 13, 28, 29, 30, 31, 32, 133, 160})"

definition is_word :: "char \<Rightarrow> bool" where
  \<comment> \<open>the class \<^verbatim>\<open>\w\<close>: alphanumeric code points and the underscore\<close>
  "is_word c =
     (c \<in> set ''ABCDEFGHIJKLMNOPQRSTUVWXYZabcdefghijklmnopqrstuvwxyz0123456789_''
      \<or> (let n = (of_char c :: nat) in
           n \<in> {170, 178, 179, 181, 185, 186, 188, 189, 190}
           \<or> (192 \<le> n \<and> n \<le> 214) \<or> (216 \<le> n \<and> n \<le> 246) \<or> 248 \<le> n))"

text \<open>
  The patterns of the source use only character classes, greedy repetition of a class,
  an optional group, the word boundary and capture groups. \<open>Mark\<close> records the position
  of a capture-group parenthesis.
\<close>

datatype rx = One "char \<Rightarrow> bool" | Many1 "char \<Rightarrow> bool" | Many0 "char \<Rightarrow> bool"
  | Opt "rx list" | WordB | Mark

type_synonym rx_result = "nat \<times> nat list"
  \<comment> \<open>number of characters matched, positions of the marks passed\<close>

definition shift :: "nat \<Rightarrow> rx_result option \<Rightarrow> rx_result option" where
  "shift k r = map_option (\<lambda>(e, ms). (e + k, map (\<lambda>m. m + k) ms)) r"

fun first_of :: "'a option list \<Rightarrow> 'a option" where
  "first_of [] = None"
| "first_of (x # xs) = (case x of Some r \<Rightarrow> Some r | None \<Rightarrow> first_of xs)"

definition prev_after :: "char option \<Rightarrow> string \<Rightarrow> nat \<Rightarrow> char option" where
  \<comment> \<open>the character before the current position once \<open>k\<close> characters of \<open>s\<close> are consumed\<close>
  "prev_after prev s k = (if k = 0 then prev else Some (s ! (k - 1)))"

definition at_boundary :: "char option \<Rightarrow> string \<Rightarrow> bool" where
  \<comment> \<open>\<^verbatim>\<open>\b\<close>: exactly one of the neighbouring characters is a word character\<close>
  "at_boundary prev s =
     ((case prev of None \<Rightarrow> False | Some c \<Rightarrow> is_word c)
      \<noteq> (case s of [] \<Rightarrow> False | c # _ \<Rightarrow> is_word c))"

text \<open>
  The backtracking matcher: the first success in the order in which \<^verbatim>\<open>re\<close> tries
  the alternatives (a greedy repetition gives characters back one at a time, an optional
  group is tried before it is skipped).
\<close>

fun rx_match :: "rx list \<Rightarrow> char option \<Rightarrow> string \<Rightarrow> rx_result option" where
  "rx_match [] prev s = Some (0, [])"
| "rx_match (One p # r) prev s =
     (case s of [] \<Rightarrow> None
      | c # cs \<Rightarrow> if p c then shift 1 (rx_match r (Some c) cs) else None)"
| "rx_match (Many1 p # r) prev s =
     first_of (map (\<lambda>k. shift k (rx_match r (prev_after prev s k) (drop k s)))
       (rev [1 ..< Suc (length (takeWhile p s))]))"
| "rx_match (Many0 p # r) prev s =
     first_of (map (\<lambda>k. shift k (rx_match r (prev_after prev s k) (drop k s)))
       (rev [0 ..< Suc (length (takeWhile p s))]))"
| "rx_match (Opt xs # r) prev s =
     (case rx_match (xs @ r) prev s of Some m \<Rightarrow> Some m | None \<Rightarrow> rx_match r prev s)"
| "rx_match (WordB # r) prev s = (if at_boundary prev s then rx_match r prev s else None)"
| "rx_match (Mark # r) prev s = map_option (\<lambda>(e, ms). (e, 0 # ms)) (rx_match r prev s)"

definition group_text :: "string \<Rightarrow> rx_result \<Rightarrow> string" where
  \<comment> \<open>group 1 when the pattern has a group, the whole match otherwise\<close>
  "group_text s m =
     (case snd m of a # b # _ \<Rightarrow> take (b - a) (drop a s) | _ \<Rightarrow> take (fst m) s)"

text \<open>
  \<^verbatim>\<open>re.findall\<close>: the non-overlapping matches from left to right. None of the
  patterns of the source matches the empty string; a match of length 0 is skipped.
\<close>

function findall :: "rx list \<Rightarrow> char option \<Rightarrow> string \<Rightarrow> string list" where
  "findall p prev [] = []"
| "findall p prev (c # cs) =
     (case rx_match p prev (c # cs) of
        None \<Rightarrow> findall p (Some c) cs
      | Some m \<Rightarrow>
          if fst m = 0 then findall p (Some c) cs
          else group_text (c # cs) m
               # findall p (prev_after prev (c # cs) (fst m)) (drop (fst m) (c # cs)))"
  by pat_completeness auto
termination
  by (relation "measure (\<lambda>(p, prev, s). length s)") auto

section \<open>Formula analysis\<close>

text \<open>
  \<^verbatim>\<open>FormulaExtractor._analyze_formula\<close>. The four patterns are

  \<^item> \<^verbatim>\<open>([A-Z]+\d+(?::[A-Z]+\d+)?)\<close> for cell and range references,
  \<^item> \<^verbatim>\<open>([A-Z]+)\s*\(\<close> for function names,
  \<^item> a group holding one character of \<^verbatim>\<open>+ - * / ^ < > =\<close> for operators,
  \<^item> \<^verbatim>\<open>\b(\d+\.?\d*)\b\<close> for numeric constants.
\<close>

definition cell_pattern :: "rx list" where
  "cell_pattern =
     [Mark, Many1 is_upper, Many1 is_digit,
      Opt [One (\<lambda>c. c = CHR '':''), Many1 is_upper, Many1 is_digit], Mark]"

definition function_pattern :: "rx list" where
  "function_pattern = [Mark, Many1 is_upper, Mark, Many0 is_space, One (\<lambda>c. c = CHR ''('')]"

definition operator_pattern :: "rx list" where
  "operator_pattern = [Mark, One (\<lambda>c. c \<in> set ''+-*/^<>=''), Mark]"

definition constant_pattern :: "rx list" where
  "constant_pattern =
     [WordB, Mark, Many1 is_digit, Opt [One (\<lambda>c. c = CHR ''.'')], Many0 is_digit, Mark, WordB]"

text \<open>
  Exceptions of the host. \<open>NameError\<close> carries the name, the others their message; the
  wording of the messages is that of CPython 3.11.
\<close>

datatype py_exception = ValueError string | SyntaxError string | NameError string
  | ZeroDivisionError string | KeyError string | IndexError string | RecursionError string

definition sq :: string where
  \<comment> \<open>the single quote\<close>
  "sq = [CHR 0x27]"

definition dq :: string where
  \<comment> \<open>the double quote\<close>
  "dq = [CHR 0x22]"

definition exc_text :: "py_exception \<Rightarrow> string" where
  \<comment> \<open>\<^verbatim>\<open>str(e)\<close>\<close>
  "exc_text e =
     (case e of
        ValueError m \<Rightarrow> m | SyntaxError m \<Rightarrow> m | ZeroDivisionError m \<Rightarrow> m
      | KeyError m \<Rightarrow> m | IndexError m \<Rightarrow> m | RecursionError m \<Rightarrow> m
      | NameError n \<Rightarrow> ''name '' @ sq @ n @ sq @ '' is not defined'')"

definition digits_value :: "string \<Rightarrow> nat" where
  "digits_value ds = foldl (\<lambda>n c. 10 * n + (of_char c - 48)) 0 ds"

definition py_float :: "string \<Rightarrow> py_exception + rat" where
  \<comment> \<open>\<^verbatim>\<open>float(c)\<close> on the spellings \<^verbatim>\<open>12\<close>, \<^verbatim>\<open>12.\<close> and \<^verbatim>\<open>12.5\<close>; the value is the
      decimal value of the literal (rounding to a binary float is not modelled). Every
      other spelling is rejected here, which is stricter than the host.\<close>
  "py_float s =
     (let ip = takeWhile is_digit s; r = dropWhile is_digit s in
      if ip = [] then Inl (ValueError ''could not convert string to float'')
      else if r = [] then Inr (of_nat (digits_value ip))
      else if hd r = CHR ''.'' \<and> list_all is_digit (tl r)
      then Inr (of_nat (digits_value ip) + of_nat (digits_value (tl r)) / 10 ^ length (tl r))
      else Inl (ValueError ''could not convert string to float''))"

fun map_raise :: "('a \<Rightarrow> 'e + 'b) \<Rightarrow> 'a list \<Rightarrow> 'e + 'b list" where
  \<comment> \<open>a list comprehension whose element expression may raise\<close>
  "map_raise f [] = Inr []"
| "map_raise f (x # xs) =
     (case f x of Inl e \<Rightarrow> Inl e
      | Inr y \<Rightarrow> (case map_raise f xs of Inl e \<Rightarrow> Inl e | Inr ys \<Rightarrow> Inr (y # ys)))"

record formula_metadata =
  original_formula :: string
  cell_address :: string
  referenced_cells :: "string list"
  referenced_ranges :: "string list"
  excel_functions :: "string list"
  operators :: "string list"
  constants :: "rat list"
  formula_type :: string
  complexity_score :: int

definition empty_metadata :: "string \<Rightarrow> string \<Rightarrow> formula_metadata" where
  "empty_metadata formula addr =
     \<lparr>original_formula = formula, cell_address = addr, referenced_cells = [],
      referenced_ranges = [], excel_functions = [], operators = [], constants = [],
      formula_type = ''simple'', complexity_score = 0\<rparr>"

definition startswith_eq :: "string \<Rightarrow> bool" where
  \<comment> \<open>\<^verbatim>\<open>formula.startswith('=')\<close>\<close>
  "startswith_eq formula = (case formula of [] \<Rightarrow> False | c # _ \<Rightarrow> c = CHR ''='')"

definition classify :: "formula_metadata \<Rightarrow> string" where
  "classify m =
     (if length (excel_functions m) > 0 then ''function''
      else if length (referenced_cells m) > 5 \<or> length (referenced_ranges m) > 0
      then ''complex_reference''
      else if length (operators m) > 3 then ''complex_arithmetic''
      else ''simple'')"

definition complexity :: "formula_metadata \<Rightarrow> int" where
  "complexity m =
     int (length (referenced_cells m)) + int (length (referenced_ranges m)) * 2
     + int (length (excel_functions m)) * 3 + int (length (operators m))"

definition analyze_formula :: "string \<Rightarrow> string \<Rightarrow> py_exception + formula_metadata" where
  \<comment> \<open>\<^verbatim>\<open>list(set(xs))\<close> keeps one copy of each element in an order the host does not
      fix; \<open>remdups\<close> is one such order.\<close>
  "analyze_formula formula addr =
     (let metadata = empty_metadata formula addr in
      if formula = [] \<or> \<not> startswith_eq formula then Inr metadata
      else
        let formula_body = tl formula;
            cell_matches = findall cell_pattern None formula_body;
            metadata = metadata
              \<lparr>referenced_ranges := filter (\<lambda>m. CHR '':'' \<in> set m) cell_matches,
               referenced_cells := filter (\<lambda>m. CHR '':'' \<notin> set m) cell_matches\<rparr>;
            function_matches = findall function_pattern None formula_body;
            metadata = metadata\<lparr>excel_functions := remdups function_matches\<rparr>;
            operator_matches = findall operator_pattern None formula_body;
            metadata = metadata\<lparr>operators := remdups operator_matches\<rparr>;
            constant_matches = findall constant_pattern None formula_body
        in case map_raise py_float constant_matches of
             Inl e \<Rightarrow> Inl e
           | Inr cs \<Rightarrow>
               let metadata = metadata\<lparr>constants := cs\<rparr>;
                   metadata = metadata\<lparr>formula_type := classify metadata\<rparr>;
                   metadata = metadata\<lparr>complexity_score := complexity metadata\<rparr>
               in Inr metadata)"

section \<open>Documents\<close>

text \<open>
  A Python \<^verbatim>\<open>dict\<close> is an association list in insertion order; assigning to a key
  that is present keeps its place, a new key goes to the end.
\<close>

definition dict_get :: "('k \<times> 'v) list \<Rightarrow> 'k \<Rightarrow> 'v \<Rightarrow> 'v" where
  "dict_get d k dflt = (case map_of d k of None \<Rightarrow> dflt | Some v \<Rightarrow> v)"

fun dict_set :: "('k \<times> 'v) list \<Rightarrow> 'k \<Rightarrow> 'v \<Rightarrow> ('k \<times> 'v) list" where
  "dict_set [] k v = [(k, v)]"
| "dict_set ((k', v') # d) k v = (if k' = k then (k, v) # d else (k', v') # dict_set d k v)"

text \<open>
  Values of the host language. A float is given by its \<^verbatim>\<open>repr\<close>, which is all the
  code below uses of one.
\<close>

datatype py_value = PyNone | PyBool bool | PyInt int | PyFloat string | PyStr string

function str_nat :: "nat \<Rightarrow> string" where
  "str_nat n = (if n < 10 then [char_of (48 + n)]
                else str_nat (n div 10) @ [char_of (48 + n mod 10)])"
  by pat_completeness auto
termination
  by (relation "measure id") auto

declare str_nat.simps [simp del]

definition str_int :: "int \<Rightarrow> string" where
  "str_int i = (if i < 0 then CHR ''-'' # str_nat (nat (- i)) else str_nat (nat i))"

text \<open>
  What the workbook loader hands over: a cell is empty, holds a literal, or is a formula
  cell (\<^verbatim>\<open>data_type == 'f'\<close>) whose value is the formula text.
\<close>

datatype cell_content = Empty | Literal py_value | Formula string

record ws_cell =
  column_letter :: string
  row :: nat
  content :: cell_content

record worksheet =
  title :: string
  cells :: "ws_cell list"

record sheet_data =
  sheet_name :: string
  formulas :: "(string \<times> string) list"
  cell_values :: "(string \<times> py_value) list"
  formula_metadata :: "(string \<times> formula_metadata) list"

record formula_data =
  workbook_name :: string
  sheets :: "(string \<times> sheet_data) list"

text \<open>
  \<^verbatim>\<open>FormulaExtractor._extract_sheet_formulas\<close>, the loop over the cells. Named ranges
  and data validation rules are read by the source as well; nothing below uses them.
\<close>

fun extract_cells :: "ws_cell list \<Rightarrow> sheet_data \<Rightarrow> py_exception + sheet_data" where
  "extract_cells [] sd = Inr sd"
| "extract_cells (c # cs) sd =
     (let cell_address = column_letter c @ str_nat (row c) in
      case content c of
        Empty \<Rightarrow> extract_cells cs sd
      | Literal v \<Rightarrow>
          extract_cells cs (sd\<lparr>cell_values := dict_set (cell_values sd) cell_address v\<rparr>)
      | Formula formula \<Rightarrow>
          (case analyze_formula formula cell_address of
             Inl e \<Rightarrow> Inl e
           | Inr metadata \<Rightarrow>
               extract_cells cs
                 (sd\<lparr>cell_values := dict_set (cell_values sd) cell_address (PyStr formula),
                     formulas := dict_set (formulas sd) cell_address formula,
                     formula_metadata :=
                       dict_set (formula_metadata sd) cell_address metadata\<rparr>)))"

definition extract_sheet_formulas :: "worksheet \<Rightarrow> py_exception + sheet_data" where
  "extract_sheet_formulas ws =
     extract_cells (cells ws)
       \<lparr>sheet_name = title ws, formulas = [], cell_values = [], formula_metadata = []\<rparr>"

fun extract_sheets ::
  "worksheet list \<Rightarrow> (string \<times> sheet_data) list \<Rightarrow> py_exception + (string \<times> sheet_data) list"
where
  "extract_sheets [] acc = Inr acc"
| "extract_sheets (ws # wss) acc =
     (case extract_sheet_formulas ws of
        Inl e \<Rightarrow> Inl e
      | Inr sd \<Rightarrow> extract_sheets wss (dict_set acc (title ws) sd))"

definition extract_formulas_from_workbook ::
  "string \<Rightarrow> worksheet list \<Rightarrow> py_exception + formula_data"
where
  \<comment> \<open>the sheets of the workbook at \<open>workbook_path\<close>, in the order of \<^verbatim>\<open>wb.sheetnames\<close>\<close>
  "extract_formulas_from_workbook workbook_path wb =
     (case extract_sheets wb [] of
        Inl e \<Rightarrow> Inl e
      | Inr shs \<Rightarrow> Inr \<lparr>workbook_name = workbook_path, sheets = shs\<rparr>)"

section \<open>Validation\<close>

definition valid_chars :: "char set" where
  "valid_chars =
     set ''ABCDEFGHIJKLMNOPQRSTUVWXYZabcdefghijklmnopqrstuvwxyz0123456789+-*/^().,!:;<>=&% ''"

definition validate_formula_syntax :: "string \<Rightarrow> bool" where
  \<comment> \<open>\<^verbatim>\<open>FormulaExtractor._validate_formula_syntax\<close>\<close>
  "validate_formula_syntax formula =
     (if formula = [] \<or> \<not> startswith_eq formula then False
      else if count_list formula CHR ''('' \<noteq> count_list formula CHR '')'' then False
      else if \<not> list_all (\<lambda>c. c \<in> valid_chars) formula then False
      else True)"

record syntax_error =
  se_sheet :: string
  se_cell :: string
  se_formula :: string
  se_error :: string

record missing_reference =
  mr_sheet :: string
  mr_cell :: string
  mr_formula :: string
  mr_missing_references :: "string list"

record circular_ref =
  cycle :: "string list"
  description :: string

record validation_results =
  syntax_errors :: "syntax_error list"
  circular_references :: "circular_ref list"
  missing_references :: "missing_reference list"
  total_formulas :: int
  valid_formulas :: int
  error_formulas :: int
  warning_formulas :: int

definition all_cells :: "formula_data \<Rightarrow> string set" where
  "all_cells fd =
     (\<Union>sd \<in> set (map snd (sheets fd)).
        set (map fst (cell_values sd)) \<union> set (map fst (formulas sd)))"

definition metadata_refs :: "sheet_data \<Rightarrow> string \<Rightarrow> string list" where
  \<comment> \<open>\<^verbatim>\<open>sheet_data.get('formula_metadata', {}).get(cell_address, {}).get('referenced_cells', [])\<close>\<close>
  "metadata_refs sd addr =
     (case map_of (formula_metadata sd) addr of
        None \<Rightarrow> [] | Some metadata \<Rightarrow> referenced_cells metadata)"

definition validate_one ::
  "string set \<Rightarrow> string \<Rightarrow> sheet_data \<Rightarrow> validation_results \<Rightarrow> string \<times> string
     \<Rightarrow> validation_results"
where
  \<comment> \<open>the body of the inner loop of \<^verbatim>\<open>validate_formula_integrity\<close>\<close>
  "validate_one cells_known sheet sd vr entry =
     (let cell_address = fst entry; formula = snd entry;
          vr = vr\<lparr>total_formulas := total_formulas vr + 1\<rparr>
      in if \<not> validate_formula_syntax formula
         then vr\<lparr>syntax_errors := syntax_errors vr
                    @ [\<lparr>se_sheet = sheet, se_cell = cell_address, se_formula = formula,
                        se_error = ''Invalid syntax''\<rparr>],
                  error_formulas := error_formulas vr + 1\<rparr>
         else
           let missing_refs = filter (\<lambda>ref_cell. ref_cell \<notin> cells_known)
                                (metadata_refs sd cell_address)
           in if missing_refs \<noteq> []
              then vr\<lparr>missing_references := missing_references vr
                         @ [\<lparr>mr_sheet = sheet, mr_cell = cell_address, mr_formula = formula,
                             mr_missing_references = missing_refs\<rparr>],
                       warning_formulas := warning_formulas vr + 1\<rparr>
              else vr\<lparr>valid_formulas := valid_formulas vr + 1\<rparr>)"

definition validate_sheet ::
  "string set \<Rightarrow> validation_results \<Rightarrow> string \<times> sheet_data \<Rightarrow> validation_results"
where
  "validate_sheet cells_known vr sh =
     foldl (validate_one cells_known (fst sh) (snd sh)) vr (formulas (snd sh))"

section \<open>Circular references\<close>

definition str_join :: "string \<Rightarrow> string list \<Rightarrow> string" where
  "str_join sep xs = (case xs of [] \<Rightarrow> [] | x # r \<Rightarrow> x @ concat (map (\<lambda>y. sep @ y) r))"

definition full_address :: "string \<Rightarrow> string \<Rightarrow> string" where
  \<comment> \<open>the f-string made of the sheet name, an exclamation mark and the cell address\<close>
  "full_address sheet addr = sheet @ ''!'' @ addr"

definition add_formula_deps ::
  "string \<Rightarrow> sheet_data \<Rightarrow> (string \<times> string list) list \<Rightarrow> string \<times> string
     \<Rightarrow> (string \<times> string list) list"
where
  "add_formula_deps sheet sd dependencies entry =
     dict_set dependencies (full_address sheet (fst entry))
       (map (full_address sheet) (metadata_refs sd (fst entry)))"

definition build_dependencies :: "formula_data \<Rightarrow> (string \<times> string list) list" where
  "build_dependencies fd =
     foldl (\<lambda>dependencies sh.
              foldl (add_formula_deps (fst sh) (snd sh)) dependencies (formulas (snd sh)))
       [] (sheets fd)"

record dfs_state =
  visited :: "string set"
  rec_stack :: "string set"
  path :: "string list"
  circular_refs :: "circular_ref list"

datatype 'a answer = Ok 'a | Raises py_exception | NoAnswer

text \<open>
  The nested function \<^verbatim>\<open>has_cycle\<close> and its loop over the neighbours.
  \<^verbatim>\<open>has_cycle\<close> is a recursive Python function: every nested call takes a frame of
  the interpreter, and the interpreter raises \<^verbatim>\<open>RecursionError\<close> when its recursion
  limit is reached. The first argument is the number of frames that are still allowed
  when \<^verbatim>\<open>has_cycle\<close> is called (the recursion limit less the frames in use); the
  source changes no limit and catches nothing around the search.
\<close>

fun has_cycle ::
  "nat \<Rightarrow> (string \<times> string list) list \<Rightarrow> string \<Rightarrow> dfs_state \<Rightarrow> (bool \<times> dfs_state) answer"
and for_neighbors ::
  "nat \<Rightarrow> (string \<times> string list) list \<Rightarrow> string list \<Rightarrow> dfs_state
     \<Rightarrow> (bool \<times> dfs_state) answer"
where
  "has_cycle 0 dependencies node st =
     Raises (RecursionError ''maximum recursion depth exceeded'')"
| "has_cycle (Suc n) dependencies node st =
     (case for_neighbors n dependencies (dict_get dependencies node [])
             (st\<lparr>visited := insert node (visited st),
                 rec_stack := insert node (rec_stack st),
                 path := path st @ [node]\<rparr>) of
        Ok (found, st') \<Rightarrow>
          if found then Ok (True, st')
          else if path st' = [] then Raises (IndexError ''pop from empty list'')
          else if node \<notin> rec_stack st' then Raises (KeyError (sq @ node @ sq))
          else Ok (False, st'\<lparr>path := butlast (path st'),
                              rec_stack := rec_stack st' - {node}\<rparr>)
      | Raises e \<Rightarrow> Raises e
      | NoAnswer \<Rightarrow> NoAnswer)"
| "for_neighbors n dependencies [] st = Ok (False, st)"
| "for_neighbors n dependencies (neighbor # rest) st =
     (if neighbor \<notin> visited st then
        (case has_cycle n dependencies neighbor st of
           Ok (found, st') \<Rightarrow>
             if found then Ok (True, st') else for_neighbors n dependencies rest st'
         | Raises e \<Rightarrow> Raises e
         | NoAnswer \<Rightarrow> NoAnswer)
      else if neighbor \<in> rec_stack st then
        (if neighbor \<notin> set (path st)
         then Raises (ValueError ''list.index(x): x not in list'')
         else
           let cycle = dropWhile (\<lambda>x. x \<noteq> neighbor) (path st) @ [neighbor] in
           Ok (True,
               st\<lparr>circular_refs := circular_refs st
                    @ [\<lparr>cycle = cycle,
                        description = ''Circular reference detected: ''
                                      @ str_join '' -> '' cycle\<rparr>]\<rparr>))
      else for_neighbors n dependencies rest st)"

fun for_roots ::
  "nat \<Rightarrow> (string \<times> string list) list \<Rightarrow> string list \<Rightarrow> string set \<times> circular_ref list
     \<Rightarrow> (string set \<times> circular_ref list) answer"
where
  "for_roots n dependencies [] acc = Ok acc"
| "for_roots n dependencies (node # rest) acc =
     (if node \<notin> fst acc then
        (case has_cycle n dependencies node
                \<lparr>visited = fst acc, rec_stack = {}, path = [], circular_refs = snd acc\<rparr> of
           Ok (found, st') \<Rightarrow> for_roots n dependencies rest (visited st', circular_refs st')
         | Raises e \<Rightarrow> Raises e
         | NoAnswer \<Rightarrow> NoAnswer)
      else for_roots n dependencies rest acc)"

definition graph_nodes :: "(string \<times> string list) list \<Rightarrow> string list" where
  "graph_nodes dependencies = remdups (map fst dependencies @ concat (map snd dependencies))"

definition detect_circular_references ::
  "nat \<Rightarrow> formula_data \<Rightarrow> circular_ref list answer"
where
  \<comment> \<open>\<^verbatim>\<open>FormulaExtractor._detect_circular_references\<close>, with \<open>limit\<close> frames left for
      \<^verbatim>\<open>has_cycle\<close>\<close>
  "detect_circular_references limit fd =
     (let dependencies = build_dependencies fd in
      case for_roots limit dependencies (map fst dependencies) ({}, []) of
        Ok acc \<Rightarrow> Ok (snd acc)
      | Raises e \<Rightarrow> Raises e
      | NoAnswer \<Rightarrow> NoAnswer)"

definition integrity_loop :: "formula_data \<Rightarrow> validation_results" where
  \<comment> \<open>the loop of \<^verbatim>\<open>validate_formula_integrity\<close> over the sheets and their formulas\<close>
  "integrity_loop fd =
     foldl (validate_sheet (all_cells fd))
       \<lparr>syntax_errors = [], circular_references = [], missing_references = [],
        total_formulas = 0, valid_formulas = 0, error_formulas = 0, warning_formulas = 0\<rparr>
       (sheets fd)"

definition validate_formula_integrity ::
  "nat \<Rightarrow> formula_data \<Rightarrow> validation_results answer"
where
  \<comment> \<open>the loop runs first; when the search for cycles raises, its results are lost\<close>
  "validate_formula_integrity limit fd =
     (let vr = integrity_loop fd
      in case detect_circular_references limit fd of
           Ok refs \<Rightarrow> Ok (vr\<lparr>circular_references := refs\<rparr>)
         | Raises e \<Rightarrow> Raises e
         | NoAnswer \<Rightarrow> NoAnswer)"

section \<open>Evaluation\<close>

definition py_str :: "py_value \<Rightarrow> string" where
  "py_str v =
     (case v of
        PyNone \<Rightarrow> ''None'' | PyBool b \<Rightarrow> (if b then ''True'' else ''False'')
      | PyInt i \<Rightarrow> str_int i | PyFloat r \<Rightarrow> r | PyStr s \<Rightarrow> s)"

definition cell_ref_pattern :: "rx list" where
  "cell_ref_pattern = [WordB, Many1 is_upper, Many1 is_digit, WordB]"

function re_sub :: "rx list \<Rightarrow> (string \<Rightarrow> string) \<Rightarrow> char option \<Rightarrow> string \<Rightarrow> string" where
  "re_sub p repl prev [] = []"
| "re_sub p repl prev (c # cs) =
     (case rx_match p prev (c # cs) of
        None \<Rightarrow> c # re_sub p repl (Some c) cs
      | Some m \<Rightarrow>
          if fst m = 0 then c # re_sub p repl (Some c) cs
          else repl (take (fst m) (c # cs))
               @ re_sub p repl (prev_after prev (c # cs) (fst m)) (drop (fst m) (c # cs)))"
  by pat_completeness auto
termination
  by (relation "measure (\<lambda>(p, repl, prev, s). length s)") auto

definition replace_cell :: "(string \<times> py_value) list \<Rightarrow> string \<Rightarrow> string" where
  "replace_cell context cell_ref =
     (case map_of context cell_ref of
        Some v \<Rightarrow> (case v of PyStr s \<Rightarrow> dq @ s @ dq | _ \<Rightarrow> py_str v)
      | None \<Rightarrow> ''0'')"

definition substitute_cell_references :: "string \<Rightarrow> (string \<times> py_value) list \<Rightarrow> string" where
  "substitute_cell_references formula context =
     re_sub cell_ref_pattern (replace_cell context) None formula"

function str_replace :: "string \<Rightarrow> string \<Rightarrow> string \<Rightarrow> string" where
  "str_replace old new s =
     (if old = [] then new @ concat (map (\<lambda>c. c # new) s)
      else if s = [] then []
      else if take (length old) s = old then new @ str_replace old new (drop (length old) s)
      else hd s # str_replace old new (tl s))"
  by pat_completeness auto
termination
  by (relation "measure (\<lambda>(old, new, s). length s)") (auto simp: neq_Nil_conv)

definition replacements :: "(string \<times> string) list" where
  "replacements =
     [(''SUM('', ''sum([''), (''AVERAGE('', ''np.mean([''), (''MAX('', ''max([''),
      (''MIN('', ''min([''), (''SQRT('', ''np.sqrt(''), (''ABS('', ''abs(''),
      (''POWER('', ''pow(''), (''EXP('', ''np.exp(''), (''LN('', ''np.log(''),
      (''LOG('', ''np.log10(''), (''PI()'', ''np.pi''), (''TRUE'', ''True''),
      (''FALSE'', ''False'')]"

definition replace_one :: "string \<Rightarrow> string \<times> string \<Rightarrow> string" where
  "replace_one formula r =
     (let excel_func = fst r; python_func = snd r;
          formula = str_replace excel_func python_func formula
      in if python_func \<noteq> [] \<and> last python_func = CHR ''[''
         then str_replace '')'' ''])'' formula else formula)"

definition replace_excel_functions :: "string \<Rightarrow> string" where
  "replace_excel_functions formula = foldl replace_one formula replacements"

text \<open>
  \<^verbatim>\<open>_safe_eval\<close> hands the text to the host's \<^verbatim>\<open>eval\<close>. The host is modelled on
  a fragment of its expression language: integer and string literals, names, lists,
  calls, attribute access, the arithmetic operators and one comparison. On every text
  outside the fragment (floats, keywords, other characters, other syntax), and on every
  text of more than 100 tokens (the host limits the nesting of brackets and the depth of
  the expressions it compiles), the model gives \<open>NoAnswer\<close>; it never guesses a result.
\<close>

datatype token = TInt nat | TName string | TStr string | TOp string
  | TOpen char | TClose char | TComma | TDot | TUnterminated

definition is_name_start :: "char \<Rightarrow> bool" where
  "is_name_start c = (c \<in> set ''ABCDEFGHIJKLMNOPQRSTUVWXYZabcdefghijklmnopqrstuvwxyz_'')"

definition is_name_char :: "char \<Rightarrow> bool" where
  "is_name_char c = (is_name_start c \<or> is_digit c)"

definition py_keywords :: "string list" where
  "py_keywords =
     [''and'', ''as'', ''assert'', ''async'', ''await'', ''break'', ''class'', ''continue'',
      ''def'', ''del'', ''elif'', ''else'', ''except'', ''finally'', ''for'', ''from'',
      ''global'', ''if'', ''import'', ''in'', ''is'', ''lambda'', ''nonlocal'', ''not'',
      ''or'', ''pass'', ''raise'', ''return'', ''try'', ''while'', ''with'', ''yield'']"

definition cons_tok :: "token \<Rightarrow> token list answer \<Rightarrow> token list answer" where
  "cons_tok t r = (case r of Ok ts \<Rightarrow> Ok (t # ts) | Raises e \<Rightarrow> Raises e | NoAnswer \<Rightarrow> NoAnswer)"

definition plain_char :: "char \<Rightarrow> bool" where
  \<comment> \<open>a character that stands for itself inside a string literal\<close>
  "plain_char c = (32 \<le> (of_char c :: nat) \<and> c \<noteq> CHR 0x5C)"

function tokenize :: "string \<Rightarrow> token list answer" where
  "tokenize [] = Ok []"
| "tokenize (c # cs) =
     (if c = CHR '' '' \<or> c = CHR 0x09 then tokenize cs
      else if is_digit c then
        (let ds = takeWhile is_digit (c # cs); rest = dropWhile is_digit (c # cs) in
         if (rest \<noteq> [] \<and> (is_name_char (hd rest) \<or> hd rest = CHR ''.''))
            \<or> (c = CHR ''0'' \<and> length ds > 1)
         then NoAnswer
         else cons_tok (TInt (digits_value ds)) (tokenize rest))
      else if is_name_start c then
        (let nm = takeWhile is_name_char (c # cs); rest = dropWhile is_name_char (c # cs) in
         if (rest \<noteq> [] \<and> (hd rest = CHR 0x22 \<or> hd rest = CHR 0x27)) \<or> nm \<in> set py_keywords
         then NoAnswer
         else cons_tok (TName nm) (tokenize rest))
      else if c = CHR 0x22 \<or> c = CHR 0x27 then
        (let body = takeWhile (\<lambda>x. x \<noteq> c) cs; rest = dropWhile (\<lambda>x. x \<noteq> c) cs in
         if \<not> list_all plain_char body then NoAnswer
         else if rest = [] then Ok [TUnterminated]
         else if body = [] \<and> tl rest \<noteq> [] \<and> hd (tl rest) = c then NoAnswer
         else cons_tok (TStr body) (tokenize (tl rest)))
      else if c = CHR ''('' \<or> c = CHR ''['' then cons_tok (TOpen c) (tokenize cs)
      else if c = CHR '')'' \<or> c = CHR '']'' then cons_tok (TClose c) (tokenize cs)
      else if c = CHR '','' then cons_tok TComma (tokenize cs)
      else if c = CHR ''.'' then cons_tok TDot (tokenize cs)
      else if cs \<noteq> [] \<and> [c, hd cs] \<in> set [''**'', ''//'', ''<='', ''>='', ''=='', ''!='']
      then cons_tok (TOp [c, hd cs]) (tokenize (tl cs))
      else if c \<in> set ''+-*/%<>'' then cons_tok (TOp [c]) (tokenize cs)
      else NoAnswer)"
  by pat_completeness auto
termination
proof (relation "measure length", goal_cases)
  case 1
  then show ?case by simp
next
  case (2 c cs)
  then show ?case by simp
next
  case (3 c cs ds rest)
  then show ?case
    using length_dropWhile_le[of is_digit cs] by (simp split: if_splits)
next
  case (4 c cs nm rest)
  then show ?case
    using length_dropWhile_le[of is_name_char cs] by (simp add: is_name_char_def split: if_splits)
next
  case (5 c cs body rest)
  then show ?case
    using length_dropWhile_le[of "\<lambda>x. x \<noteq> c" cs] by (cases "dropWhile (\<lambda>x. x \<noteq> c) cs") auto
qed (auto simp: neq_Nil_conv)


definition closer_of :: "char \<Rightarrow> char" where
  "closer_of c = (if c = CHR ''('' then CHR '')'' else CHR '']'')"

fun check_brackets :: "char list \<Rightarrow> token list \<Rightarrow> py_exception option" where
  "check_brackets stack [] =
     (case stack of
        [] \<Rightarrow> None
      | c # _ \<Rightarrow> Some (SyntaxError (sq @ [c] @ sq @ '' was never closed (<string>, line 1)'')))"
| "check_brackets stack (TOpen c # ts) = check_brackets (c # stack) ts"
| "check_brackets stack (TClose c # ts) =
     (case stack of
        [] \<Rightarrow> Some (SyntaxError (''unmatched '' @ sq @ [c] @ sq @ '' (<string>, line 1)''))
      | c' # stack' \<Rightarrow>
          if closer_of c' = c then check_brackets stack' ts
          else Some (SyntaxError
                 (''closing parenthesis '' @ sq @ [c] @ sq
                  @ '' does not match opening parenthesis '' @ sq @ [c'] @ sq
                  @ '' (<string>, line 1)'')))"
| "check_brackets stack (TUnterminated # ts) =
     Some (SyntaxError ''unterminated string literal (detected at line 1) (<string>, line 1)'')"
| "check_brackets stack (t # ts) = check_brackets stack ts"

datatype py_expr = EInt int | EStr string | EName string | EList "py_expr list"
  | EUnary string py_expr | EBin string py_expr py_expr | ECmp string py_expr py_expr
  | ECall py_expr "py_expr list" | EAttr py_expr string

definition peek_op :: "token list \<Rightarrow> string option" where
  "peek_op ts = (case ts of TOp op # _ \<Rightarrow> Some op | _ \<Rightarrow> None)"

definition peek_open :: "token list \<Rightarrow> char option" where
  "peek_open ts = (case ts of TOpen c # _ \<Rightarrow> Some c | _ \<Rightarrow> None)"

definition peek_close :: "token list \<Rightarrow> char option" where
  "peek_close ts = (case ts of TClose c # _ \<Rightarrow> Some c | _ \<Rightarrow> None)"

definition peek_name :: "token list \<Rightarrow> string option" where
  "peek_name ts = (case ts of TName nm # _ \<Rightarrow> Some nm | _ \<Rightarrow> None)"

definition peek_int :: "token list \<Rightarrow> nat option" where
  "peek_int ts = (case ts of TInt k # _ \<Rightarrow> Some k | _ \<Rightarrow> None)"

definition peek_str :: "token list \<Rightarrow> string option" where
  "peek_str ts = (case ts of TStr s # _ \<Rightarrow> Some s | _ \<Rightarrow> None)"

definition next_is :: "token \<Rightarrow> token list \<Rightarrow> bool" where
  "next_is t ts = (ts \<noteq> [] \<and> hd ts = t)"

definition binop_prec :: "string \<Rightarrow> nat option" where
  \<comment> \<open>comparisons bind weakest, then sums, then products\<close>
  "binop_prec op =
     (if op \<in> set [''<'', ''>'', ''<='', ''>='', ''=='', ''!=''] then Some 1
      else if op \<in> set [''+'', ''-''] then Some 2
      else if op \<in> set [''*'', ''/'', ''//'', ''%''] then Some 3
      else None)"

text \<open>
  The grammar of the fragment, by precedence climbing. The first argument bounds the depth
  of the recursion.
\<close>

function parse_binary :: "nat \<Rightarrow> nat \<Rightarrow> token list \<Rightarrow> (py_expr \<times> token list) option"
and parse_rest :: "nat \<Rightarrow> nat \<Rightarrow> py_expr \<Rightarrow> token list \<Rightarrow> (py_expr \<times> token list) option"
and parse_unary :: "nat \<Rightarrow> token list \<Rightarrow> (py_expr \<times> token list) option"
and parse_primary :: "nat \<Rightarrow> token list \<Rightarrow> (py_expr \<times> token list) option"
and parse_trailers :: "nat \<Rightarrow> py_expr \<Rightarrow> token list \<Rightarrow> (py_expr \<times> token list) option"
and parse_args :: "nat \<Rightarrow> char \<Rightarrow> token list \<Rightarrow> (py_expr list \<times> token list) option"
where
  "parse_binary 0 p ts = None"
| "parse_binary (Suc n) p ts =
     (case parse_unary n ts of None \<Rightarrow> None | Some (l, ts') \<Rightarrow> parse_rest n p l ts')"
| "parse_rest 0 p l ts = None"
| "parse_rest (Suc n) p l ts =
     (case peek_op ts of
        None \<Rightarrow> Some (l, ts)
      | Some op \<Rightarrow>
          (case binop_prec op of
             None \<Rightarrow> Some (l, ts)
           | Some q \<Rightarrow>
               if q < p then Some (l, ts)
               else (case parse_binary n (Suc q) (tl ts) of
                       None \<Rightarrow> None
                     | Some (r, ts') \<Rightarrow>
                         if q = 1
                         then (if (case peek_op ts' of None \<Rightarrow> False
                                   | Some op' \<Rightarrow> binop_prec op' = Some 1)
                               then None
                               else parse_rest n p (ECmp op l r) ts')
                         else parse_rest n p (EBin op l r) ts')))"
| "parse_unary 0 ts = None"
| "parse_unary (Suc n) ts =
     (if peek_op ts = Some ''-'' \<or> peek_op ts = Some ''+''
      then (case parse_unary n (tl ts) of
              None \<Rightarrow> None
            | Some (e, r) \<Rightarrow> Some (EUnary (the (peek_op ts)) e, r))
      else (case parse_primary n ts of
              None \<Rightarrow> None
            | Some (b, ts') \<Rightarrow>
                if peek_op ts' = Some ''**''
                then (case parse_unary n (tl ts') of
                        None \<Rightarrow> None
                      | Some (e, r) \<Rightarrow> Some (EBin ''**'' b e, r))
                else Some (b, ts')))"
| "parse_primary 0 ts = None"
| "parse_primary (Suc n) ts =
     (if peek_int ts \<noteq> None then parse_trailers n (EInt (int (the (peek_int ts)))) (tl ts)
      else if peek_str ts \<noteq> None then
        (if peek_str (tl ts) \<noteq> None then None
         else parse_trailers n (EStr (the (peek_str ts))) (tl ts))
      else if peek_name ts \<noteq> None then parse_trailers n (EName (the (peek_name ts))) (tl ts)
      else if peek_open ts = Some CHR ''('' then
        (case parse_binary n 1 (tl ts) of
           None \<Rightarrow> None
         | Some (e, r) \<Rightarrow>
             if peek_close r = Some CHR '')'' then parse_trailers n e (tl r) else None)
      else if peek_open ts = Some CHR ''['' then
        (case parse_args n CHR '']'' (tl ts) of
           None \<Rightarrow> None
         | Some (es, r) \<Rightarrow> parse_trailers n (EList es) r)
      else None)"
| "parse_trailers 0 e ts = None"
| "parse_trailers (Suc n) e ts =
     (if peek_open ts = Some CHR ''('' then
        (case parse_args n CHR '')'' (tl ts) of
           None \<Rightarrow> None
         | Some (args, r) \<Rightarrow> parse_trailers n (ECall e args) r)
      else if peek_open ts \<noteq> None then None
      else if next_is TDot ts then
        (case peek_name (tl ts) of
           None \<Rightarrow> None
         | Some nm \<Rightarrow> parse_trailers n (EAttr e nm) (tl (tl ts)))
      else Some (e, ts))"
| "parse_args 0 closer ts = None"
| "parse_args (Suc n) closer ts =
     (if peek_close ts \<noteq> None
      then (if peek_close ts = Some closer then Some ([], tl ts) else None)
      else (case parse_binary n 1 ts of
              None \<Rightarrow> None
            | Some (e, ts') \<Rightarrow>
                if peek_close ts' \<noteq> None
                then (if peek_close ts' = Some closer then Some ([e], tl ts') else None)
                else if next_is TComma ts' \<and> peek_close (tl ts') = None
                then (case parse_args n closer (tl ts') of
                        None \<Rightarrow> None
                      | Some (es, r) \<Rightarrow> Some (e # es, r))
                else None))"

  by pat_completeness auto
termination
  by (relation "measure (\<lambda>x. case x of
        Inl (Inl (n, _)) \<Rightarrow> n | Inl (Inr (Inl (n, _))) \<Rightarrow> n | Inl (Inr (Inr (n, _))) \<Rightarrow> n
      | Inr (Inl (n, _)) \<Rightarrow> n | Inr (Inr (Inl (n, _))) \<Rightarrow> n | Inr (Inr (Inr (n, _))) \<Rightarrow> n)")
    simp_all

definition parse :: "token list \<Rightarrow> py_expr option" where
  "parse ts =
     (case parse_binary (8 * length ts + 8) 1 ts of
        None \<Rightarrow> None
      | Some (e, r) \<Rightarrow> if r = [] then Some e else None)"


text \<open>
  Objects of the evaluator: the values, lists, and the entries of the namespace.
\<close>

datatype py_object = Val py_value | List "py_object list" | Builtin string | Module string

definition safe_dict :: "(string \<times> py_object) list" where
  \<comment> \<open>the namespace of \<^verbatim>\<open>_safe_eval\<close>; its \<^verbatim>\<open>__builtins__\<close> entry is the empty dict, so
      no other name is bound\<close>
  "safe_dict =
     [(''abs'', Builtin ''abs''), (''max'', Builtin ''max''), (''min'', Builtin ''min''),
      (''sum'', Builtin ''sum''), (''pow'', Builtin ''pow''), (''round'', Builtin ''round''),
      (''np'', Module ''numpy''), (''True'', Val (PyBool True)),
      (''False'', Val (PyBool False))]"

definition lookup_name :: "string \<Rightarrow> py_object answer" where
  "lookup_name nm =
     (if nm = ''True'' then Ok (Val (PyBool True))
      else if nm = ''False'' then Ok (Val (PyBool False))
      else if nm = ''None'' then Ok (Val PyNone)
      else if nm = ''__builtins__'' then NoAnswer
      else case map_of safe_dict nm of
             Some obj \<Rightarrow> Ok obj
           | None \<Rightarrow> Raises (NameError nm))"

definition int_of_object :: "py_object \<Rightarrow> int option" where
  "int_of_object obj = (case obj of Val (PyInt i) \<Rightarrow> Some i | _ \<Rightarrow> None)"

definition ints_of :: "py_object list \<Rightarrow> int list option" where
  "ints_of objs =
     (if list_all (\<lambda>obj. int_of_object obj \<noteq> None) objs
      then Some (map (\<lambda>obj. the (int_of_object obj)) objs) else None)"

definition binop :: "string \<Rightarrow> py_object \<Rightarrow> py_object \<Rightarrow> py_object answer" where
  \<comment> \<open>integer arithmetic and string concatenation; a quotient is a float, which is not
      computed here\<close>
  "binop op l r =
     (case (l, r) of
        (Val (PyInt a), Val (PyInt b)) \<Rightarrow>
          if op = ''+'' then Ok (Val (PyInt (a + b)))
          else if op = ''-'' then Ok (Val (PyInt (a - b)))
          else if op = ''*'' then Ok (Val (PyInt (a * b)))
          else if op = ''/'' then
            (if b = 0 then Raises (ZeroDivisionError ''division by zero'') else NoAnswer)
          else if op = ''//'' then
            (if b = 0 then Raises (ZeroDivisionError ''integer division or modulo by zero'')
             else Ok (Val (PyInt (a div b))))
          else if op = ''%'' then
            (if b = 0 then Raises (ZeroDivisionError ''integer modulo by zero'')
             else Ok (Val (PyInt (a mod b))))
          else if op = ''**'' then (if 0 \<le> b then Ok (Val (PyInt (a ^ nat b))) else NoAnswer)
          else NoAnswer
      | (Val (PyStr a), Val (PyStr b)) \<Rightarrow> if op = ''+'' then Ok (Val (PyStr (a @ b))) else NoAnswer
      | _ \<Rightarrow> NoAnswer)"

definition cmpop :: "string \<Rightarrow> py_object \<Rightarrow> py_object \<Rightarrow> py_object answer" where
  "cmpop op l r =
     (case (int_of_object l, int_of_object r) of
        (Some a, Some b) \<Rightarrow>
          if op = ''<'' then Ok (Val (PyBool (a < b)))
          else if op = ''>'' then Ok (Val (PyBool (a > b)))
          else if op = ''<='' then Ok (Val (PyBool (a \<le> b)))
          else if op = ''>='' then Ok (Val (PyBool (a \<ge> b)))
          else if op = ''=='' then Ok (Val (PyBool (a = b)))
          else if op = ''!='' then Ok (Val (PyBool (a \<noteq> b)))
          else NoAnswer
      | _ \<Rightarrow> NoAnswer)"

definition unop :: "string \<Rightarrow> py_object \<Rightarrow> py_object answer" where
  "unop op v =
     (case int_of_object v of
        Some a \<Rightarrow> if op = ''-'' then Ok (Val (PyInt (- a)))
                  else if op = ''+'' then Ok (Val (PyInt a)) else NoAnswer
      | None \<Rightarrow> NoAnswer)"

definition call_object :: "py_object \<Rightarrow> py_object list \<Rightarrow> py_object answer" where
  \<comment> \<open>the built-in functions of the namespace on integers\<close>
  "call_object f args =
     (case f of
        Builtin nm \<Rightarrow>
          if nm = ''abs'' then
            (case args of [Val (PyInt a)] \<Rightarrow> Ok (Val (PyInt \<bar>a\<bar>)) | _ \<Rightarrow> NoAnswer)
          else if nm = ''sum'' then
            (case args of
               [List xs] \<Rightarrow> (case ints_of xs of Some is \<Rightarrow> Ok (Val (PyInt (sum_list is)))
                              | None \<Rightarrow> NoAnswer)
             | _ \<Rightarrow> NoAnswer)
          else if nm = ''max'' \<or> nm = ''min'' then
            (case (case args of [List xs] \<Rightarrow> ints_of xs
                   | [_] \<Rightarrow> None | _ \<Rightarrow> ints_of args) of
               Some (i # is) \<Rightarrow>
                 Ok (Val (PyInt (if nm = ''max'' then fold max is i else fold min is i)))
             | _ \<Rightarrow> NoAnswer)
          else if nm = ''pow'' then
            (case args of
               [Val (PyInt a), Val (PyInt b)] \<Rightarrow>
                 if 0 \<le> b then Ok (Val (PyInt (a ^ nat b))) else NoAnswer
             | _ \<Rightarrow> NoAnswer)
          else NoAnswer
      | _ \<Rightarrow> NoAnswer)"

fun eval_expr :: "py_expr \<Rightarrow> py_object answer"
and eval_list :: "py_expr list \<Rightarrow> py_object list answer"
where
  "eval_expr (EInt i) = Ok (Val (PyInt i))"
| "eval_expr (EStr s) = Ok (Val (PyStr s))"
| "eval_expr (EName nm) = lookup_name nm"
| "eval_expr (EList es) =
     (case eval_list es of Ok vs \<Rightarrow> Ok (List vs) | Raises e \<Rightarrow> Raises e | NoAnswer \<Rightarrow> NoAnswer)"
| "eval_expr (EUnary op e) =
     (case eval_expr e of Ok v \<Rightarrow> unop op v | Raises x \<Rightarrow> Raises x | NoAnswer \<Rightarrow> NoAnswer)"
| "eval_expr (EBin op l r) =
     (case eval_expr l of
        Ok a \<Rightarrow> (case eval_expr r of
                   Ok b \<Rightarrow> binop op a b | Raises x \<Rightarrow> Raises x | NoAnswer \<Rightarrow> NoAnswer)
      | Raises x \<Rightarrow> Raises x
      | NoAnswer \<Rightarrow> NoAnswer)"
| "eval_expr (ECmp op l r) =
     (case eval_expr l of
        Ok a \<Rightarrow> (case eval_expr r of
                   Ok b \<Rightarrow> cmpop op a b | Raises x \<Rightarrow> Raises x | NoAnswer \<Rightarrow> NoAnswer)
      | Raises x \<Rightarrow> Raises x
      | NoAnswer \<Rightarrow> NoAnswer)"
| "eval_expr (ECall f args) =
     (case eval_expr f of
        Ok g \<Rightarrow> (case eval_list args of
                   Ok vs \<Rightarrow> call_object g vs | Raises x \<Rightarrow> Raises x | NoAnswer \<Rightarrow> NoAnswer)
      | Raises x \<Rightarrow> Raises x
      | NoAnswer \<Rightarrow> NoAnswer)"
| "eval_expr (EAttr e nm) =
     (case eval_expr e of Ok v \<Rightarrow> NoAnswer | Raises x \<Rightarrow> Raises x | NoAnswer \<Rightarrow> NoAnswer)"
| "eval_list [] = Ok []"
| "eval_list (e # es) =
     (case eval_expr e of
        Ok v \<Rightarrow> (case eval_list es of
                   Ok vs \<Rightarrow> Ok (v # vs) | Raises x \<Rightarrow> Raises x | NoAnswer \<Rightarrow> NoAnswer)
      | Raises x \<Rightarrow> Raises x
      | NoAnswer \<Rightarrow> NoAnswer)"

definition py_eval :: "string \<Rightarrow> py_object answer" where
  \<comment> \<open>\<^verbatim>\<open>eval(expression, safe_dict)\<close> on the fragment described above\<close>
  "py_eval expression =
     (case tokenize expression of
        Ok ts \<Rightarrow>
          (case check_brackets [] ts of
             Some e \<Rightarrow> Raises e
           | None \<Rightarrow>
               if ts = [] then Raises (SyntaxError ''invalid syntax (<string>, line 0)'')
               else if 100 < length ts then NoAnswer
               else (case parse ts of Some ex \<Rightarrow> eval_expr ex | None \<Rightarrow> NoAnswer))
      | Raises e \<Rightarrow> Raises e
      | NoAnswer \<Rightarrow> NoAnswer)"

definition safe_eval :: "string \<Rightarrow> py_object answer" where
  "safe_eval expression =
     (case py_eval expression of
        Ok result \<Rightarrow> Ok result
      | Raises e \<Rightarrow>
          Raises (ValueError (''Cannot evaluate expression '' @ sq @ expression @ sq @ '': ''
                              @ exc_text e))
      | NoAnswer \<Rightarrow> NoAnswer)"

definition truthy_context :: "(string \<times> py_value) list option \<Rightarrow> bool" where
  \<comment> \<open>\<^verbatim>\<open>if context:\<close> holds for a dict with at least one entry\<close>
  "truthy_context context = (case context of None \<Rightarrow> False | Some d \<Rightarrow> d \<noteq> [])"

definition evaluate_formula ::
  "string \<Rightarrow> (string \<times> py_value) list option \<Rightarrow> py_object answer"
where
  "evaluate_formula formula context =
     (if formula = [] \<or> \<not> startswith_eq formula then Ok (Val (PyStr formula))
      else
        let formula_body = tl formula;
            formula_body = (if truthy_context context
                            then substitute_cell_references formula_body (the context)
                            else formula_body);
            formula_body = replace_excel_functions formula_body
        in case safe_eval formula_body of
             Ok result \<Rightarrow> Ok result
           | Raises e \<Rightarrow> Ok (Val (PyStr (''#ERROR: '' @ exc_text e)))
           | NoAnswer \<Rightarrow> NoAnswer)"

section \<open>Export of the formula map\<close>

text \<open>
  The workbook processor keeps, for every sheet, the formulas by cell reference.
  \<^verbatim>\<open>ExcelProcessor.export_formulas_to_json\<close> flattens them into one dict whose keys are
  made of the sheet name, an exclamation mark and the cell reference; this dict is the
  \<^verbatim>\<open>formulas\<close> entry of the exported document. (Writing the document as JSON text and
  reading it back is the host's business and is not modelled.)
\<close>

record processed_sheet =
  p_formulas :: "(string \<times> string) list"
  p_values :: "(string \<times> py_value) list"

record processed_data =
  filename :: string
  p_sheets :: "(string \<times> processed_sheet) list"

definition flatten_sheet ::
  "(string \<times> string) list \<Rightarrow> string \<times> processed_sheet \<Rightarrow> (string \<times> string) list"
where
  "flatten_sheet export sh =
     foldl (\<lambda>export entry. dict_set export (fst sh @ ''!'' @ fst entry) (snd entry))
       export (p_formulas (snd sh))"

definition export_formulas :: "processed_data \<Rightarrow> (string \<times> string) list" where
  "export_formulas pd = foldl flatten_sheet [] (p_sheets pd)"

section \<open>Example documents\<close>

definition quoted_formula :: string where
  "quoted_formula = ''=IF(A1>0,'' @ dq @ ''SAFE'' @ dq @ '','' @ dq @ ''UNSAFE'' @ dq @ '')''"

definition quoted_book :: "worksheet list" where
  "quoted_book =
     [\<lparr>title = ''Sheet1'',
       cells = [\<lparr>column_letter = ''A'', row = 1, content = Literal (PyInt 3)\<rparr>,
                \<lparr>column_letter = ''B'', row = 1, content = Formula quoted_formula\<rparr>,
                \<lparr>column_letter = ''C'', row = 1, content = Formula ''=A1+D1''\<rparr>]\<rparr>]"

definition quoted_sheet :: sheet_data where
  "quoted_sheet =
     \<lparr>sheet_name = ''Sheet1'',
      formulas = [(''B1'', quoted_formula), (''C1'', ''=A1+D1'')],
      cell_values = [(''A1'', PyInt 3), (''B1'', PyStr quoted_formula),
                     (''C1'', PyStr ''=A1+D1'')],
      formula_metadata =
        [(''B1'', \<lparr>original_formula = quoted_formula, cell_address = ''B1'',
                    referenced_cells = [''A1''], referenced_ranges = [],
                    excel_functions = [''IF''], operators = [''>''], constants = [0],
                    formula_type = ''function'', complexity_score = 5\<rparr>),
         (''C1'', \<lparr>original_formula = ''=A1+D1'', cell_address = ''C1'',
                    referenced_cells = [''A1'', ''D1''], referenced_ranges = [],
                    excel_functions = [], operators = [''+''], constants = [],
                    formula_type = ''simple'', complexity_score = 3\<rparr>)]\<rparr>"

definition quoted_data :: formula_data where
  "quoted_data = \<lparr>workbook_name = ''book.xlsx'', sheets = [(''Sheet1'', quoted_sheet)]\<rparr>"

text \<open>
  A sheet whose cells \<^verbatim>\<open>A1\<close> to \<^verbatim>\<open>An\<close> each refer to the cell below and whose cell
  after them holds the conditional with text branches of the spec's own example:
  \<open>chain_book\<close> is the workbook, \<open>chain_data\<close> what the extraction makes of it.
\<close>

definition if_formula :: string where
  "if_formula = ''=IF(1>0,'' @ dq @ ''SAFE'' @ dq @ '','' @ dq @ ''UNSAFE'' @ dq @ '')''"

definition chain_cell :: "nat \<Rightarrow> string" where
  "chain_cell i = ''A'' @ str_nat (Suc i)"

definition chain_formulas :: "nat \<Rightarrow> (string \<times> string) list" where
  "chain_formulas n =
     map (\<lambda>i. (chain_cell i, ''='' @ chain_cell (Suc i))) [0 ..< n] @ [(chain_cell n, if_formula)]"

definition chain_metadata :: "nat \<Rightarrow> (string \<times> formula_metadata) list" where
  "chain_metadata n =
     map (\<lambda>i. (chain_cell i,
                \<lparr>original_formula = ''='' @ chain_cell (Suc i), cell_address = chain_cell i,
                 referenced_cells = [chain_cell (Suc i)], referenced_ranges = [],
                 excel_functions = [], operators = [], constants = [],
                 formula_type = ''simple'', complexity_score = 1\<rparr>)) [0 ..< n]
     @ [(chain_cell n,
         \<lparr>original_formula = if_formula, cell_address = chain_cell n,
          referenced_cells = [], referenced_ranges = [], excel_functions = [''IF''],
          operators = [''>''], constants = [1, 0], formula_type = ''function'',
          complexity_score = 4\<rparr>)]"

definition chain_sheet :: "nat \<Rightarrow> sheet_data" where
  "chain_sheet n =
     \<lparr>sheet_name = ''Sheet1'', formulas = chain_formulas n,
      cell_values = map (\<lambda>entry. (fst entry, PyStr (snd entry))) (chain_formulas n),
      formula_metadata = chain_metadata n\<rparr>"

definition chain_data :: "nat \<Rightarrow> formula_data" where
  "chain_data n = \<lparr>workbook_name = ''chain.xlsx'', sheets = [(''Sheet1'', chain_sheet n)]\<rparr>"

definition chain_book :: "nat \<Rightarrow> worksheet list" where
  "chain_book n =
     [\<lparr>title = ''Sheet1'',
       cells = map (\<lambda>i. \<lparr>column_letter = ''A'', row = Suc i,
                           content = Formula (''='' @ chain_cell (Suc i))\<rparr>) [0 ..< n]
               @ [\<lparr>column_letter = ''A'', row = Suc n, content = Formula if_formula\<rparr>]\<rparr>]"

definition chain_node :: "nat \<Rightarrow> string" where
  "chain_node i = full_address ''Sheet1'' (chain_cell i)"

definition chain_deps :: "nat \<Rightarrow> (string \<times> string list) list" where
  "chain_deps n =
     map (\<lambda>i. (chain_node i, [chain_node (Suc i)])) [0 ..< n] @ [(chain_node n, [])]"

section \<open>Notions used in the properties\<close>

definition dec_lit :: "string \<Rightarrow> bool" where
  \<comment> \<open>a decimal literal: digits, possibly followed by a point and further digits\<close>
  "dec_lit t =
     (\<exists>a b. t = a @ b \<and> a \<noteq> [] \<and> list_all is_digit a \<and>
            (b = [] \<or> (\<exists>b'. b = CHR ''.'' # b' \<and> list_all is_digit b')))"

definition malformed :: "string \<Rightarrow> bool" where
  \<comment> \<open>a text without the formula marker, or whose body has no character that can
      start a reference, a function name, an operator or a constant\<close>
  "malformed formula =
     (\<not> startswith_eq formula
      \<or> list_all (\<lambda>c. \<not> is_upper c \<and> \<not> is_digit c \<and> c \<notin> set ''+-*/^<>='') (tl formula))"

definition cell_tokens :: "string \<Rightarrow> string list" where
  \<comment> \<open>the cell reference tokens of a formula, in order of occurrence, repetitions kept\<close>
  "cell_tokens formula =
     filter (\<lambda>m. CHR '':'' \<notin> set m) (findall cell_pattern None (tl formula))"

definition range_tokens :: "string \<Rightarrow> string list" where
  \<comment> \<open>the range reference tokens of a formula\<close>
  "range_tokens formula =
     filter (\<lambda>m. CHR '':'' \<in> set m) (findall cell_pattern None (tl formula))"

definition function_tokens :: "string \<Rightarrow> string list" where
  \<comment> \<open>the function name tokens of a formula, repetitions kept\<close>
  "function_tokens formula = findall function_pattern None (tl formula)"

definition operator_tokens :: "string \<Rightarrow> string list" where
  \<comment> \<open>the operator tokens of a formula, repetitions kept\<close>
  "operator_tokens formula = findall operator_pattern None (tl formula)"

definition cell_ref_ok :: "string \<Rightarrow> bool" where
  \<comment> \<open>a cell reference as the loader builds it: column letters and a row number\<close>
  "cell_ref_ok c = (c \<noteq> [] \<and> list_all (\<lambda>x. is_upper x \<or> is_digit x) c)"

definition processed :: "processed_data \<Rightarrow> bool" where
  \<comment> \<open>a document as the processor produces it: the sheets and the formulas of a sheet are
      dicts, so their keys are distinct, and the keys of the formulas are cell references\<close>
  "processed pd =
     (distinct (map fst (p_sheets pd))
      \<and> list_all (\<lambda>sh. distinct (map fst (p_formulas (snd sh)))
                        \<and> list_all (\<lambda>entry. cell_ref_ok (fst entry)) (p_formulas (snd sh)))
           (p_sheets pd))"

definition formula_map :: "processed_data \<Rightarrow> ((string \<times> string) \<times> string) list" where
  \<comment> \<open>the mapping from qualified address (sheet, cell) to formula text of a document\<close>
  "formula_map pd =
     concat (map (\<lambda>sh. map (\<lambda>entry. ((fst sh, fst entry), snd entry)) (p_formulas (snd sh)))
               (p_sheets pd))"

definition split_key :: "string \<Rightarrow> string \<times> string" where
  \<comment> \<open>reading a flat key back: the cell reference is what follows the last exclamation mark\<close>
  "split_key k =
     (let c = rev (takeWhile (\<lambda>x. x \<noteq> CHR ''!'') (rev k))
      in (take (length k - length c - 1) k, c))"

definition reimport :: "(string \<times> string) list \<Rightarrow> ((string \<times> string) \<times> string) list" where
  "reimport export = map (\<lambda>entry. (split_key (fst entry), snd entry)) export"

definition flat_key :: "string \<Rightarrow> string \<Rightarrow> string" where
  \<comment> \<open>the flat key of a formula cell\<close>
  "flat_key s c = s @ ''!'' @ c"

definition sheet_keys :: "string \<Rightarrow> (string \<times> string) list \<Rightarrow> (string \<times> string) list" where
  "sheet_keys s fs = map (\<lambda>entry. (flat_key s (fst entry), snd entry)) fs"

definition keys_from :: "string set \<Rightarrow> string set" where
  "keys_from names = {k. \<exists>s c. k = flat_key s c \<and> cell_ref_ok c \<and> s \<in> names}"

definition recursion_error :: py_exception where
  "recursion_error = RecursionError ''maximum recursion depth exceeded''"

definition counts_ok :: "validation_results \<Rightarrow> bool" where
  "counts_ok vr =
     (error_formulas vr = int (length (syntax_errors vr))
      \<and> warning_formulas vr = int (length (missing_references vr))
      \<and> total_formulas vr = valid_formulas vr + error_formulas vr + warning_formulas vr
      \<and> list_all (\<lambda>se. \<not> validate_formula_syntax (se_formula se)) (syntax_errors vr)
      \<and> list_all (\<lambda>mr. validate_formula_syntax (mr_formula mr)) (missing_references vr))"

definition dfs_inv :: "dfs_state \<Rightarrow> bool" where
  "dfs_inv st = (rec_stack st \<subseteq> visited st \<and> set (path st) = rec_stack st)"

definition dfs_post :: "dfs_state \<Rightarrow> (bool \<times> dfs_state) answer \<Rightarrow> bool" where
  "dfs_post st r =
     (case r of
        Ok (found, st') \<Rightarrow>
          visited st \<subseteq> visited st'
          \<and> (\<not> found \<longrightarrow> path st' = path st \<and> rec_stack st' = rec_stack st \<and> dfs_inv st')
      | _ \<Rightarrow> False)"

(*PROPERTIES*)

section \<open>Properties of the matcher\<close>

lemma first_of_map_SomeD:
  "first_of (map f ks) = Some r \<Longrightarrow> \<exists>k\<in>set ks. f k = Some r"
  by (induction ks) (auto split: option.splits)

lemma shift_SomeD:
  "shift k r = Some m \<Longrightarrow> \<exists>e ms. r = Some (e, ms) \<and> m = (e + k, map (\<lambda>x. x + k) ms)"
  by (auto simp: shift_def)

lemma takeWhile_all: "list_all p a \<Longrightarrow> takeWhile p a = a"
  by (induction a) auto

lemma take_le_takeWhile:
  "k \<le> length (takeWhile p s) \<Longrightarrow> list_all p (take k s)"
proof (induction s arbitrary: k)
  case Nil
  then show ?case by simp
next
  case (Cons c cs)
  then show ?case by (cases k) (auto split: if_splits)
qed

lemma findall_Nil:
  "(\<And>prev c cs. c \<in> set s \<Longrightarrow> rx_match p prev (c # cs) = None) \<Longrightarrow> findall p prev s = []"
  by (induction s arbitrary: prev) simp_all

lemma cell_pattern_no_start:
  "\<not> is_upper c \<Longrightarrow> rx_match cell_pattern prev (c # cs) = None"
  by (simp add: cell_pattern_def)

lemma function_pattern_no_start:
  "\<not> is_upper c \<Longrightarrow> rx_match function_pattern prev (c # cs) = None"
  by (simp add: function_pattern_def)

lemma operator_pattern_no_start:
  "c \<notin> set ''+-*/^<>='' \<Longrightarrow> rx_match operator_pattern prev (c # cs) = None"
  by (simp add: operator_pattern_def)

lemma constant_pattern_no_start:
  "\<not> is_digit c \<Longrightarrow> rx_match constant_pattern prev (c # cs) = None"
  by (simp add: constant_pattern_def)

subsection \<open>Every constant found is accepted by the float conversion\<close>

lemma py_float_digits:
  assumes "a \<noteq> []" "list_all is_digit a"
  shows "py_float a = Inr (of_nat (digits_value a))"
proof -
  from assms(2) have tw: "takeWhile is_digit a = a" and dw: "dropWhile is_digit a = []"
    by (simp_all add: takeWhile_all list_all_iff)
  show ?thesis unfolding py_float_def Let_def tw dw using assms(1) by simp
qed

lemma py_float_dot:
  assumes "a \<noteq> []" "list_all is_digit a" "list_all is_digit b"
  shows "\<exists>v. py_float (a @ CHR ''.'' # b) = Inr v"
proof -
  have nd: "\<not> is_digit CHR ''.''" by (simp add: is_digit_def)
  from assms(2) nd have tw: "takeWhile is_digit (a @ CHR ''.'' # b) = a"
    and dw: "dropWhile is_digit (a @ CHR ''.'' # b) = CHR ''.'' # b"
    by (simp_all add: list_all_iff)
  show ?thesis unfolding py_float_def Let_def tw dw using assms(1,3) by simp
qed

lemma dec_lit_digits: "a \<noteq> [] \<Longrightarrow> list_all is_digit a \<Longrightarrow> dec_lit a"
  unfolding dec_lit_def by (rule exI[of _ a], rule exI[of _ "[]"]) simp

lemma dec_lit_dot:
  "a \<noteq> [] \<Longrightarrow> list_all is_digit a \<Longrightarrow> list_all is_digit b \<Longrightarrow> dec_lit (a @ CHR ''.'' # b)"
  unfolding dec_lit_def by (rule exI[of _ a], rule exI[of _ "CHR ''.'' # b"]) simp

lemma py_float_dec_lit: "dec_lit t \<Longrightarrow> \<exists>v. py_float t = Inr v"
  unfolding dec_lit_def using py_float_digits py_float_dot by fastforce

lemma match_mark_wordb:
  "rx_match [Mark, WordB] p s = Some m \<Longrightarrow> m = (0, [0])"
  by (auto split: if_splits)

lemma match_tail0:
  assumes "rx_match [Many0 is_digit, Mark, WordB] p s = Some m"
  shows "\<exists>k. k \<le> length (takeWhile is_digit s) \<and> m = (k, [k])"
proof -
  from assms
  have "first_of (map (\<lambda>k. shift k (rx_match [Mark, WordB] (prev_after p s k) (drop k s)))
          (rev [0 ..< Suc (length (takeWhile is_digit s))])) = Some m"
    unfolding rx_match.simps(4)[of is_digit "[Mark, WordB]"] .
  from first_of_map_SomeD[OF this]
  obtain k where k: "k \<in> set (rev [0 ..< Suc (length (takeWhile is_digit s))])"
    and s: "shift k (rx_match [Mark, WordB] (prev_after p s k) (drop k s)) = Some m"
    by blast
  from shift_SomeD[OF s] obtain e ms where
    "rx_match [Mark, WordB] (prev_after p s k) (drop k s) = Some (e, ms)"
    "m = (e + k, map (\<lambda>x. x + k) ms)" by blast
  with match_mark_wordb[of "prev_after p s k" "drop k s" "(e, ms)"] have "m = (k, [k])" by simp
  with k show ?thesis by auto
qed

lemma match_opt_tail:
  assumes "rx_match [Opt [One (\<lambda>c. c = CHR ''.'')], Many0 is_digit, Mark, WordB] p s = Some m"
  shows "(\<exists>k. k \<le> length (takeWhile is_digit s) \<and> m = (k, [k]))
       \<or> (\<exists>k cs. s = CHR ''.'' # cs \<and> k \<le> length (takeWhile is_digit cs) \<and> m = (Suc k, [Suc k]))"
proof (cases "rx_match [One (\<lambda>c. c = CHR ''.''), Many0 is_digit, Mark, WordB] p s")
  case None
  with assms have "rx_match [Many0 is_digit, Mark, WordB] p s = Some m"
    by (simp del: rx_match.simps(2,4,6,7))
  from match_tail0[OF this] show ?thesis by blast
next
  case (Some m')
  with assms have m: "m = m'" by (simp del: rx_match.simps(2,4,6,7))
  from Some obtain cs where s: "s = CHR ''.'' # cs"
    and sh: "shift 1 (rx_match [Many0 is_digit, Mark, WordB] (Some CHR ''.'') cs) = Some m'"
    by (auto simp del: rx_match.simps(4,6,7) split: list.splits if_splits)
  from shift_SomeD[OF sh] obtain e ms where
    r: "rx_match [Many0 is_digit, Mark, WordB] (Some CHR ''.'') cs = Some (e, ms)"
    and m': "m' = (e + 1, map (\<lambda>x. x + 1) ms)" by blast
  from match_tail0[OF r] obtain k where "k \<le> length (takeWhile is_digit cs)" "(e, ms) = (k, [k])"
    by blast
  with m m' s show ?thesis by auto
qed

lemma constant_match_shape:
  assumes "rx_match constant_pattern prev s = Some m"
  shows "dec_lit (group_text s m) \<and> 0 < fst m"
proof -
  let ?r = "[Opt [One (\<lambda>c. c = CHR ''.'')], Many0 is_digit, Mark, WordB]"
  from assms obtain m1 where m1: "rx_match (Many1 is_digit # ?r) prev s = Some m1"
    and m: "m = (fst m1, 0 # snd m1)"
    by (auto simp: constant_pattern_def simp del: rx_match.simps(2,3,4,5) split: if_splits)
  from m1
  have "first_of (map (\<lambda>k. shift k (rx_match ?r (prev_after prev s k) (drop k s)))
          (rev [1 ..< Suc (length (takeWhile is_digit s))])) = Some m1"
    unfolding rx_match.simps(3)[of is_digit ?r] .
  from first_of_map_SomeD[OF this]
  obtain k1 where k1: "k1 \<in> set (rev [1 ..< Suc (length (takeWhile is_digit s))])"
    and sh: "shift k1 (rx_match ?r (prev_after prev s k1) (drop k1 s)) = Some m1"
    by blast
  from shift_SomeD[OF sh] obtain e ms where
    r: "rx_match ?r (prev_after prev s k1) (drop k1 s) = Some (e, ms)"
    and m1': "m1 = (e + k1, map (\<lambda>x. x + k1) ms)" by blast
  from k1 have k1pos: "1 \<le> k1" and k1le: "k1 \<le> length (takeWhile is_digit s)" by auto
  have d1: "list_all is_digit (take k1 s)" using k1le by (rule take_le_takeWhile)
  have k1len: "k1 \<le> length s" using k1le length_takeWhile_le[of is_digit s] by linarith
  have ne: "take k1 s \<noteq> []" using k1pos k1len by (cases s) auto
  have split: "\<And>n. take (n + k1) s = take k1 s @ take n (drop k1 s)"
    by (metis add.commute take_add)
  from match_opt_tail[OF r] show ?thesis
  proof
    assume "\<exists>k. k \<le> length (takeWhile is_digit (drop k1 s)) \<and> (e, ms) = (k, [k])"
    then obtain k where k: "k \<le> length (takeWhile is_digit (drop k1 s))" "e = k" "ms = [k]"
      by auto
    have "list_all is_digit (take k (drop k1 s))" using k(1) by (rule take_le_takeWhile)
    with d1 ne have "dec_lit (take k1 s @ take k (drop k1 s))"
      by (intro dec_lit_digits) simp_all
    with k m m1' split[of k] k1pos show ?thesis
      by (simp add: group_text_def)
  next
    assume "\<exists>k cs. drop k1 s = CHR ''.'' # cs \<and> k \<le> length (takeWhile is_digit cs)
       \<and> (e, ms) = (Suc k, [Suc k])"
    then obtain k cs where k: "drop k1 s = CHR ''.'' # cs" "k \<le> length (takeWhile is_digit cs)"
      "e = Suc k" "ms = [Suc k]" by auto
    have "list_all is_digit (take k cs)" using k(2) by (rule take_le_takeWhile)
    with d1 ne have "dec_lit (take k1 s @ CHR ''.'' # take k cs)"
      by (intro dec_lit_dot)
    with k m m1' split[of "Suc k"] show ?thesis
      by (simp add: group_text_def)
  qed
qed

lemma map_raise_ok:
  "(\<And>x. x \<in> set xs \<Longrightarrow> \<exists>y. f x = Inr y) \<Longrightarrow> \<exists>ys. map_raise f xs = Inr ys"
proof (induction xs)
  case Nil
  then show ?case by simp
next
  case (Cons x xs)
  then obtain y ys where "f x = Inr y" "map_raise f xs = Inr ys" by (meson list.set_intros)
  then show ?case by simp
qed

lemma findall_constant_dec_lit:
  "t \<in> set (findall constant_pattern prev s) \<Longrightarrow> dec_lit t"
proof (induction constant_pattern prev s rule: findall.induct)
  case (1 prev)
  then show ?case by simp
next
  case (2 prev c cs)
  show ?case
  proof (cases "rx_match constant_pattern prev (c # cs)")
    case None
    with 2 show ?thesis by simp
  next
    case (Some m)
    with constant_match_shape[OF Some] 2 show ?thesis
      by (auto split: if_splits)
  qed
qed

section \<open>Properties of the formula analysis\<close>

lemma analyze_formula_returns: "\<exists>m. analyze_formula f a = Inr m"
proof -
  have "\<exists>cs. map_raise py_float (findall constant_pattern None (tl f)) = Inr cs"
    by (rule map_raise_ok) (blast intro: py_float_dec_lit findall_constant_dec_lit)
  then show ?thesis
    by (auto simp: analyze_formula_def Let_def)
qed

lemma analyze_formula_malformed:
  assumes "malformed f"
  shows "analyze_formula f a = Inr (empty_metadata f a)"
proof (cases "f = [] \<or> \<not> startswith_eq f")
  case True
  then show ?thesis by (simp add: analyze_formula_def Let_def)
next
  case False
  with assms have b: "\<forall>c\<in>set (tl f). \<not> is_upper c \<and> \<not> is_digit c \<and> c \<notin> set ''+-*/^<>=''"
    by (simp add: malformed_def list_all_iff)
  have 1: "findall cell_pattern None (tl f) = []"
    using b by (intro findall_Nil cell_pattern_no_start) blast
  have 2: "findall function_pattern None (tl f) = []"
    using b by (intro findall_Nil function_pattern_no_start) blast
  have 3: "findall operator_pattern None (tl f) = []"
    using b by (intro findall_Nil operator_pattern_no_start) blast
  have 4: "findall constant_pattern None (tl f) = []"
    using b by (intro findall_Nil constant_pattern_no_start) blast
  from False show ?thesis
    by (simp add: analyze_formula_def Let_def 1 2 3 4 empty_metadata_def classify_def
        complexity_def)
qed

lemma analyze_formula_fields:
  assumes "analyze_formula f a = Inr m"
  shows "formula_type m = classify m" and "complexity_score m = complexity m"
    and "distinct (operators m)" and "distinct (excel_functions m)"
  using assms
  by (auto simp: analyze_formula_def Let_def classify_def complexity_def empty_metadata_def
      split: if_splits sum.splits)

lemma analyze_formula_tokens:
  assumes "startswith_eq f" and "analyze_formula f a = Inr m"
  shows "referenced_cells m = cell_tokens f" and "referenced_ranges m = range_tokens f"
    and "excel_functions m = remdups (function_tokens f)"
    and "operators m = remdups (operator_tokens f)"
proof -
  from assms(1) have ne: "f \<noteq> []" by (auto simp: startswith_eq_def)
  from assms ne show "referenced_cells m = cell_tokens f"
    and "referenced_ranges m = range_tokens f"
    and "excel_functions m = remdups (function_tokens f)"
    and "operators m = remdups (operator_tokens f)"
    by (auto simp: analyze_formula_def Let_def cell_tokens_def range_tokens_def
        function_tokens_def operator_tokens_def split: sum.splits)
qed

text \<open>
  C6, as the spec states it, fails on the operator rule: the operators found are
  collapsed to the different symbols before they are counted. The formula
  \<^verbatim>\<open>=1+2+3+4+5\<close> has four operator tokens, no function, no cell reference and no range,
  and its type is simple, not complex arithmetic.
\<close>

theorem operator_tokens_counterexample:
  "function_tokens ''=1+2+3+4+5'' = [] \<and> cell_tokens ''=1+2+3+4+5'' = []
   \<and> range_tokens ''=1+2+3+4+5'' = []
   \<and> operator_tokens ''=1+2+3+4+5'' = [''+'', ''+'', ''+'', ''+'']
   \<and> analyze_formula ''=1+2+3+4+5'' ''A1'' =
     Inr \<lparr>original_formula = ''=1+2+3+4+5'', cell_address = ''A1'', referenced_cells = [],
          referenced_ranges = [], excel_functions = [], operators = [''+''],
          constants = [1, 2, 3, 4, 5], formula_type = ''simple'', complexity_score = 1\<rparr>"
  by code_simp

text \<open>
  C6, amended. For a text that starts with the formula marker, the analysis returns
  metadata whose type is decided from the tokens of the text by the first rule that
  applies: function if a function token occurs; else complex reference if more than five
  cell reference tokens (repetitions counted) or a range reference occur; else complex
  arithmetic if more than three different operator symbols occur; else simple.
\<close>

theorem classification_first_match:
  assumes "startswith_eq f"
  shows "\<exists>m. analyze_formula f a = Inr m
           \<and> formula_type m =
               (if function_tokens f \<noteq> [] then ''function''
                else if length (cell_tokens f) > 5 \<or> range_tokens f \<noteq> []
                then ''complex_reference''
                else if card (set (operator_tokens f)) > 3 then ''complex_arithmetic''
                else ''simple'')"
proof -
  obtain m where m: "analyze_formula f a = Inr m"
    using analyze_formula_returns[of f a] by blast
  note t = analyze_formula_tokens[OF assms m]
  have "formula_type m = classify m" by (rule analyze_formula_fields(1)[OF m])
  then have "formula_type m =
               (if function_tokens f \<noteq> [] then ''function''
                else if length (cell_tokens f) > 5 \<or> range_tokens f \<noteq> []
                then ''complex_reference''
                else if card (set (operator_tokens f)) > 3 then ''complex_arithmetic''
                else ''simple'')"
    by (simp add: classify_def t length_remdups_card_conv)
  with m show ?thesis by blast
qed

theorem classification_first_match_witness:
  "startswith_eq ''=A1+B1+C1+D1+E1+A1''
   \<and> function_tokens ''=A1+B1+C1+D1+E1+A1'' = []
   \<and> cell_tokens ''=A1+B1+C1+D1+E1+A1'' = [''A1'', ''B1'', ''C1'', ''D1'', ''E1'', ''A1'']
   \<and> (\<exists>m. analyze_formula ''=A1+B1+C1+D1+E1+A1'' ''G1'' = Inr m
          \<and> formula_type m = ''complex_reference'')"
proof -
  have h: "startswith_eq ''=A1+B1+C1+D1+E1+A1''" by (simp add: startswith_eq_def)
  have f: "function_tokens ''=A1+B1+C1+D1+E1+A1'' = []" by code_simp
  have c: "cell_tokens ''=A1+B1+C1+D1+E1+A1'' = [''A1'', ''B1'', ''C1'', ''D1'', ''E1'', ''A1'']"
    by code_simp
  from classification_first_match[OF h, of "''G1''"] h f c show ?thesis by simp
qed

text \<open>
  C7, as the spec states it, fails: a formula without references that calls a function
  has a complexity score above its operator count (\<^verbatim>\<open>=SQRT(16)\<close> has no operator and the
  score 3); a formula without references and without functions is complex arithmetic, not
  simple, once it uses four different operators (\<^verbatim>\<open>=1+2-3*4/5\<close>); and an operator
  symbol that occurs twice is counted once (\<^verbatim>\<open>=1+2+3\<close> has two operator tokens and the
  score 1).
\<close>

theorem complexity_is_operator_count_counterexample:
  "analyze_formula ''=SQRT(16)'' ''A1'' =
     Inr \<lparr>original_formula = ''=SQRT(16)'', cell_address = ''A1'', referenced_cells = [],
          referenced_ranges = [], excel_functions = [''SQRT''], operators = [],
          constants = [16], formula_type = ''function'', complexity_score = 3\<rparr>
   \<and> analyze_formula ''=1+2-3*4/5'' ''A1'' =
     Inr \<lparr>original_formula = ''=1+2-3*4/5'', cell_address = ''A1'', referenced_cells = [],
          referenced_ranges = [], excel_functions = [],
          operators = [''+'', ''-'', ''*'', ''/''], constants = [1, 2, 3, 4, 5],
          formula_type = ''complex_arithmetic'', complexity_score = 4\<rparr>
   \<and> operator_tokens ''=1+2+3'' = [''+'', ''+'']
   \<and> analyze_formula ''=1+2+3'' ''A1'' =
     Inr \<lparr>original_formula = ''=1+2+3'', cell_address = ''A1'', referenced_cells = [],
          referenced_ranges = [], excel_functions = [], operators = [''+''],
          constants = [1, 2, 3], formula_type = ''simple'', complexity_score = 1\<rparr>"
  by code_simp

text \<open>
  C7, amended. For a text that starts with the formula marker and in which no cell
  reference token and no range reference token occurs, the analysis returns metadata whose
  complexity score is three times the number of different function names plus the number
  of different operator symbols that occur in the text, and whose type is function if a
  function token occurs, else complex arithmetic if more than three different operator
  symbols occur, else simple.
\<close>

theorem complexity_without_references:
  assumes "startswith_eq f" and "cell_tokens f = []" and "range_tokens f = []"
  shows "\<exists>m. analyze_formula f a = Inr m
           \<and> complexity_score m =
               3 * int (card (set (function_tokens f))) + int (card (set (operator_tokens f)))
           \<and> formula_type m =
               (if function_tokens f \<noteq> [] then ''function''
                else if card (set (operator_tokens f)) > 3 then ''complex_arithmetic''
                else ''simple'')"
proof -
  obtain m where m: "analyze_formula f a = Inr m"
    using analyze_formula_returns[of f a] by blast
  note t = analyze_formula_tokens[OF assms(1) m]
  have ty: "formula_type m = classify m" and sc: "complexity_score m = complexity m"
    by (rule analyze_formula_fields[OF m])+
  have 1: "complexity_score m =
             3 * int (card (set (function_tokens f))) + int (card (set (operator_tokens f)))"
    using sc assms(2,3) by (simp add: complexity_def t length_remdups_card_conv)
  have 2: "formula_type m =
               (if function_tokens f \<noteq> [] then ''function''
                else if card (set (operator_tokens f)) > 3 then ''complex_arithmetic''
                else ''simple'')"
    using ty assms(2,3) by (simp add: classify_def t length_remdups_card_conv)
  from m 1 2 show ?thesis by blast
qed

theorem complexity_without_references_witness:
  "startswith_eq ''=SQRT(16)+1+1'' \<and> cell_tokens ''=SQRT(16)+1+1'' = []
   \<and> range_tokens ''=SQRT(16)+1+1'' = []
   \<and> function_tokens ''=SQRT(16)+1+1'' = [''SQRT'']
   \<and> operator_tokens ''=SQRT(16)+1+1'' = [''+'', ''+'']
   \<and> (\<exists>m. analyze_formula ''=SQRT(16)+1+1'' ''A1'' = Inr m
          \<and> complexity_score m = 4 \<and> formula_type m = ''function'')"
proof -
  have h: "startswith_eq ''=SQRT(16)+1+1''" by (simp add: startswith_eq_def)
  have c: "cell_tokens ''=SQRT(16)+1+1'' = []" by code_simp
  have r: "range_tokens ''=SQRT(16)+1+1'' = []" by code_simp
  have f: "function_tokens ''=SQRT(16)+1+1'' = [''SQRT'']" by code_simp
  have p: "operator_tokens ''=SQRT(16)+1+1'' = [''+'', ''+'']" by code_simp
  from complexity_without_references[OF h c r, of "''A1''"] h c r f p show ?thesis by simp
qed

text \<open>
  C8. The analysis returns metadata for every text, it never raises; and for a malformed
  text (one without the formula marker, or one whose body has no character that can start
  a token) the metadata has no referenced cells, ranges, functions, operators or constants,
  the type simple and the score 0.
\<close>

theorem analysis_total:
  "(\<exists>m. analyze_formula f a = Inr m)
   \<and> (malformed f \<longrightarrow>
        analyze_formula f a =
          Inr \<lparr>original_formula = f, cell_address = a, referenced_cells = [],
               referenced_ranges = [], excel_functions = [], operators = [], constants = [],
               formula_type = ''simple'', complexity_score = 0\<rparr>)"
  using analyze_formula_returns[of f a] analyze_formula_malformed[of f a]
  by (simp add: empty_metadata_def)

theorem analysis_total_witness:
  "malformed ''SUM(A1:B2)'' \<and> malformed ''=(#@ ~)''
   \<and> analyze_formula ''SUM(A1:B2)'' ''C1'' =
       Inr \<lparr>original_formula = ''SUM(A1:B2)'', cell_address = ''C1'', referenced_cells = [],
            referenced_ranges = [], excel_functions = [], operators = [], constants = [],
            formula_type = ''simple'', complexity_score = 0\<rparr>
   \<and> analyze_formula ''=(#@ ~)'' ''C1'' =
       Inr \<lparr>original_formula = ''=(#@ ~)'', cell_address = ''C1'', referenced_cells = [],
            referenced_ranges = [], excel_functions = [], operators = [], constants = [],
            formula_type = ''simple'', complexity_score = 0\<rparr>"
proof -
  have m1: "malformed ''SUM(A1:B2)''" by (simp add: malformed_def startswith_eq_def)
  have m2: "malformed ''=(#@ ~)''"
    by (simp add: malformed_def startswith_eq_def is_upper_def is_digit_def)
  from analysis_total[of "''SUM(A1:B2)''" "''C1''"] analysis_total[of "''=(#@ ~)''" "''C1''"]
    m1 m2
  show ?thesis by blast
qed

section \<open>Properties of the export\<close>

lemma dict_set_new: "k \<notin> fst ` set d \<Longrightarrow> dict_set d k v = d @ [(k, v)]"
proof (induction d)
  case Nil
  then show ?case by simp
next
  case (Cons p d)
  obtain a b where p: "p = (a, b)" by (cases p)
  from Cons.prems p have "a \<noteq> k" and "k \<notin> fst ` set d" by auto
  with Cons.IH p show ?case by simp
qed

lemma dict_set_keys: "fst ` set (dict_set d k v) = insert k (fst ` set d)"
proof (induction d)
  case Nil
  then show ?case by simp
next
  case (Cons p d)
  obtain a b where p: "p = (a, b)" by (cases p)
  show ?case
  proof (cases "a = k")
    case True
    with p show ?thesis by simp
  next
    case False
    with p Cons.IH show ?thesis by (simp add: insert_commute)
  qed
qed

lemma dict_set_distinct: "distinct (map fst d) \<Longrightarrow> distinct (map fst (dict_set d k v))"
proof (induction d)
  case Nil
  then show ?case by simp
next
  case (Cons p d)
  obtain a b where p: "p = (a, b)" by (cases p)
  from Cons.prems p have a: "a \<notin> fst ` set d" and d: "distinct (map fst d)" by auto
  show ?case
  proof (cases "a = k")
    case True
    with a d p show ?thesis by simp
  next
    case False
    with a have "a \<notin> fst ` set (dict_set d k v)" by (simp add: dict_set_keys)
    with False Cons.IH[OF d] p show ?thesis by simp
  qed
qed

lemma cell_ref_ok_no_bang: "cell_ref_ok c \<Longrightarrow> CHR ''!'' \<notin> set c"
proof
  assume ok: "cell_ref_ok c" and "CHR ''!'' \<in> set c"
  then have "is_upper CHR ''!'' \<or> is_digit CHR ''!''"
    by (simp add: cell_ref_ok_def list_all_iff)
  then show False by (simp add: is_upper_def is_digit_def)
qed

lemma split_key_flat:
  assumes "cell_ref_ok c"
  shows "split_key (flat_key s c) = (s, c)"
proof -
  have nb: "CHR ''!'' \<notin> set c" using assms by (rule cell_ref_ok_no_bang)
  have "takeWhile (\<lambda>x. x \<noteq> CHR ''!'') (rev c @ CHR ''!'' # rev s)
        = rev c @ takeWhile (\<lambda>x. x \<noteq> CHR ''!'') (CHR ''!'' # rev s)"
    by (rule takeWhile_append2) (use nb in auto)
  then show ?thesis by (simp add: split_key_def flat_key_def)
qed

lemma flat_key_inj:
  assumes "cell_ref_ok c" "cell_ref_ok c'" "flat_key s c = flat_key s' c'"
  shows "s = s'" and "c = c'"
proof -
  have "(s, c) = split_key (flat_key s c)" using split_key_flat[OF assms(1)] by simp
  also have "\<dots> = split_key (flat_key s' c')" by (simp only: assms(3))
  also have "\<dots> = (s', c')" using split_key_flat[OF assms(2)] by simp
  finally have "(s, c) = (s', c')" .
  then show "s = s'" and "c = c'" by simp_all
qed

lemma flatten_entries:
  assumes "distinct (map fst fs)"
    and "\<And>e. e \<in> set fs \<Longrightarrow> cell_ref_ok (fst e)"
    and "\<And>e. e \<in> set fs \<Longrightarrow> flat_key s (fst e) \<notin> fst ` set acc"
  shows "foldl (\<lambda>export entry. dict_set export (flat_key s (fst entry)) (snd entry)) acc fs
         = acc @ sheet_keys s fs"
  using assms
proof (induction fs arbitrary: acc)
  case Nil
  then show ?case by (simp add: sheet_keys_def)
next
  case (Cons e fs)
  have new: "flat_key s (fst e) \<notin> fst ` set acc" by (rule Cons.prems(3)) simp
  have d: "distinct (map fst fs)" using Cons.prems(1) by simp
  have "fst e \<notin> fst ` set fs" using Cons.prems(1) by simp
  then have ne: "fst e' \<noteq> fst e" if "e' \<in> set fs" for e'
    using that by (metis imageI)
  have oks: "\<And>e'. e' \<in> set fs \<Longrightarrow> cell_ref_ok (fst e')" using Cons.prems(2) by simp
  have fresh: "flat_key s (fst e') \<notin> fst ` set (acc @ [(flat_key s (fst e), snd e)])"
    if e': "e' \<in> set fs" for e'
  proof
    assume "flat_key s (fst e') \<in> fst ` set (acc @ [(flat_key s (fst e), snd e)])"
    then have "flat_key s (fst e') \<in> fst ` set acc \<or> flat_key s (fst e') = flat_key s (fst e)"
      by auto
    then show False
    proof
      assume "flat_key s (fst e') \<in> fst ` set acc"
      moreover have "flat_key s (fst e') \<notin> fst ` set acc" by (rule Cons.prems(3)) (simp add: e')
      ultimately show False by simp
    next
      assume eq: "flat_key s (fst e') = flat_key s (fst e)"
      have "fst e' = fst e"
        by (rule flat_key_inj(2)[OF _ _ eq]) (simp_all add: Cons.prems(2) e')
      with ne[OF e'] show False by simp
    qed
  qed
  have "foldl (\<lambda>export entry. dict_set export (flat_key s (fst entry)) (snd entry))
          (acc @ [(flat_key s (fst e), snd e)]) fs
        = (acc @ [(flat_key s (fst e), snd e)]) @ sheet_keys s fs"
    by (rule Cons.IH[OF d oks fresh])
  then show ?case by (simp add: dict_set_new[OF new] sheet_keys_def)
qed

lemma flatten_sheet_append:
  assumes "distinct (map fst (p_formulas sd))"
    and "\<And>e. e \<in> set (p_formulas sd) \<Longrightarrow> cell_ref_ok (fst e)"
    and "\<And>e. e \<in> set (p_formulas sd) \<Longrightarrow> flat_key s (fst e) \<notin> fst ` set acc"
  shows "flatten_sheet acc (s, sd) = acc @ sheet_keys s (p_formulas sd)"
proof -
  have "flatten_sheet acc (s, sd)
        = foldl (\<lambda>export entry. dict_set export (flat_key s (fst entry)) (snd entry)) acc
            (p_formulas sd)"
    by (simp add: flatten_sheet_def flat_key_def)
  also have "\<dots> = acc @ sheet_keys s (p_formulas sd)"
    by (rule flatten_entries[OF assms])
  finally show ?thesis .
qed

lemma sheet_keys_from:
  assumes "\<And>e. e \<in> set fs \<Longrightarrow> cell_ref_ok (fst e)"
  shows "fst ` set (sheet_keys s fs) \<subseteq> keys_from {s}"
proof
  fix k assume "k \<in> fst ` set (sheet_keys s fs)"
  then obtain e where e: "e \<in> set fs" and k: "k = flat_key s (fst e)"
    by (auto simp: sheet_keys_def)
  from assms[OF e] k show "k \<in> keys_from {s}" unfolding keys_from_def by blast
qed

lemma keys_from_mono: "A \<subseteq> B \<Longrightarrow> keys_from A \<subseteq> keys_from B"
  unfolding keys_from_def by blast

lemma keys_from_fresh:
  assumes "k \<in> keys_from names" "s \<notin> names" "cell_ref_ok c"
  shows "flat_key s c \<noteq> k"
proof
  assume eq: "flat_key s c = k"
  from assms(1) obtain s' c' where k: "k = flat_key s' c'" and c': "cell_ref_ok c'"
    and s': "s' \<in> names" unfolding keys_from_def by blast
  from eq k have "flat_key s c = flat_key s' c'" by simp
  from flat_key_inj(1)[OF assms(3) c' this] s' assms(2) show False by simp
qed

lemma flatten_all:
  assumes "distinct (map fst shs)"
    and "\<And>sh e. sh \<in> set shs \<Longrightarrow> e \<in> set (p_formulas (snd sh)) \<Longrightarrow> cell_ref_ok (fst e)"
    and "\<And>sh. sh \<in> set shs \<Longrightarrow> distinct (map fst (p_formulas (snd sh)))"
    and "fst ` set acc \<subseteq> keys_from names" and "names \<inter> fst ` set shs = {}"
  shows "foldl flatten_sheet acc shs
         = acc @ concat (map (\<lambda>sh. sheet_keys (fst sh) (p_formulas (snd sh))) shs)"
  using assms
proof (induction shs arbitrary: acc names)
  case Nil
  then show ?case by simp
next
  case (Cons sh shs)
  obtain s sd where sh: "sh = (s, sd)" by (cases sh)
  have dsd: "distinct (map fst (p_formulas sd))" using Cons.prems(3)[of sh] sh by simp
  have oks: "\<And>e. e \<in> set (p_formulas sd) \<Longrightarrow> cell_ref_ok (fst e)"
    using Cons.prems(2)[of sh] sh by simp
  have sn: "s \<notin> names" using Cons.prems(5) sh by auto
  have fresh: "flat_key s (fst e) \<notin> fst ` set acc" if e: "e \<in> set (p_formulas sd)" for e
  proof
    assume "flat_key s (fst e) \<in> fst ` set acc"
    with Cons.prems(4) have "flat_key s (fst e) \<in> keys_from names" by blast
    from keys_from_fresh[OF this sn oks[OF e]] show False by simp
  qed
  have step: "flatten_sheet acc sh = acc @ sheet_keys s (p_formulas sd)"
    unfolding sh by (rule flatten_sheet_append[OF dsd oks fresh])
  have d': "distinct (map fst shs)" and s_new: "s \<notin> fst ` set shs"
    using Cons.prems(1) sh by auto
  have k1: "fst ` set acc \<subseteq> keys_from (insert s names)"
    using Cons.prems(4) keys_from_mono[of names "insert s names"] by blast
  have k2: "fst ` set (sheet_keys s (p_formulas sd)) \<subseteq> keys_from (insert s names)"
    using sheet_keys_from[of "p_formulas sd" s, OF oks] keys_from_mono[of "{s}" "insert s names"]
    by blast
  have inv': "fst ` set (acc @ sheet_keys s (p_formulas sd)) \<subseteq> keys_from (insert s names)"
    using k1 k2 by (simp add: image_Un)
  have disj': "insert s names \<inter> fst ` set shs = {}"
    using Cons.prems(5) s_new by auto
  have "foldl flatten_sheet (acc @ sheet_keys s (p_formulas sd)) shs
        = (acc @ sheet_keys s (p_formulas sd))
          @ concat (map (\<lambda>sh. sheet_keys (fst sh) (p_formulas (snd sh))) shs)"
  proof (rule Cons.IH[OF d' _ _ inv' disj'])
    show "\<And>sh e. sh \<in> set shs \<Longrightarrow> e \<in> set (p_formulas (snd sh)) \<Longrightarrow> cell_ref_ok (fst e)"
      using Cons.prems(2) by (meson list.set_intros(2))
    show "\<And>sh. sh \<in> set shs \<Longrightarrow> distinct (map fst (p_formulas (snd sh)))"
      using Cons.prems(3) by (meson list.set_intros(2))
  qed
  with step sh show ?case by simp
qed

lemma foldl_dict_set_distinct:
  "distinct (map fst acc) \<Longrightarrow>
   distinct (map fst (foldl (\<lambda>export entry. dict_set export (f entry) (g entry)) acc fs))"
proof (induction fs arbitrary: acc)
  case Nil
  then show ?case by simp
next
  case (Cons e fs)
  from Cons.prems have "distinct (map fst (dict_set acc (f e) (g e)))"
    by (rule dict_set_distinct)
  from Cons.IH[OF this] show ?case by simp
qed

lemma flatten_sheet_distinct:
  "distinct (map fst acc) \<Longrightarrow> distinct (map fst (flatten_sheet acc sh))"
  unfolding flatten_sheet_def by (rule foldl_dict_set_distinct)

lemma flatten_all_distinct:
  "distinct (map fst acc) \<Longrightarrow> distinct (map fst (foldl flatten_sheet acc shs))"
proof (induction shs arbitrary: acc)
  case Nil
  then show ?case by simp
next
  case (Cons sh shs)
  from Cons.prems have "distinct (map fst (flatten_sheet acc sh))"
    by (rule flatten_sheet_distinct)
  from Cons.IH[OF this] show ?case by simp
qed

lemma reimport_sheet_keys:
  assumes "\<And>e. e \<in> set fs \<Longrightarrow> cell_ref_ok (fst e)"
  shows "reimport (sheet_keys s fs) = map (\<lambda>entry. ((s, fst entry), snd entry)) fs"
  using assms
proof (induction fs)
  case Nil
  then show ?case by (simp add: reimport_def sheet_keys_def)
next
  case (Cons e fs)
  have "split_key (flat_key s (fst e)) = (s, fst e)"
    by (rule split_key_flat) (simp add: Cons.prems)
  moreover have "reimport (sheet_keys s fs) = map (\<lambda>entry. ((s, fst entry), snd entry)) fs"
    by (rule Cons.IH) (simp add: Cons.prems)
  ultimately show ?case by (simp add: reimport_def sheet_keys_def)
qed

lemma reimport_append: "reimport (a @ b) = reimport a @ reimport b"
  by (simp add: reimport_def)

lemma reimport_concat:
  assumes "\<And>sh e. sh \<in> set shs \<Longrightarrow> e \<in> set (p_formulas (snd sh)) \<Longrightarrow> cell_ref_ok (fst e)"
  shows "reimport (concat (map (\<lambda>sh. sheet_keys (fst sh) (p_formulas (snd sh))) shs))
       = concat (map (\<lambda>sh. map (\<lambda>entry. ((fst sh, fst entry), snd entry)) (p_formulas (snd sh))) shs)"
  using assms
proof (induction shs)
  case Nil
  then show ?case by (simp add: reimport_def)
next
  case (Cons sh shs)
  have ok: "\<And>e. e \<in> set (p_formulas (snd sh)) \<Longrightarrow> cell_ref_ok (fst e)"
    using Cons.prems[of sh] by simp
  have 1: "reimport (sheet_keys (fst sh) (p_formulas (snd sh)))
           = map (\<lambda>entry. ((fst sh, fst entry), snd entry)) (p_formulas (snd sh))"
    by (rule reimport_sheet_keys[OF ok])
  have 2: "reimport (concat (map (\<lambda>sh. sheet_keys (fst sh) (p_formulas (snd sh))) shs))
       = concat (map (\<lambda>sh. map (\<lambda>entry. ((fst sh, fst entry), snd entry)) (p_formulas (snd sh))) shs)"
    by (rule Cons.IH) (meson Cons.prems list.set_intros(2))
  show ?case by (simp add: reimport_append 1 2)
qed

text \<open>
  C9. For every processed document, flattening the formulas into the flat record and
  reading the flat keys back gives the mapping from qualified address to formula text of
  the document: no entry is lost and no two formula cells share a key.
\<close>

theorem export_round_trip:
  assumes "processed pd"
  shows "reimport (export_formulas pd) = formula_map pd
       \<and> distinct (map fst (export_formulas pd))
       \<and> length (export_formulas pd) = length (formula_map pd)"
proof -
  let ?flat = "concat (map (\<lambda>sh. sheet_keys (fst sh) (p_formulas (snd sh))) (p_sheets pd))"
  have d: "distinct (map fst (p_sheets pd))" using assms by (simp add: processed_def)
  have cells: "\<And>sh e. sh \<in> set (p_sheets pd) \<Longrightarrow> e \<in> set (p_formulas (snd sh))
                 \<Longrightarrow> cell_ref_ok (fst e)"
    using assms by (simp add: processed_def list_all_iff)
  have ds: "\<And>sh. sh \<in> set (p_sheets pd) \<Longrightarrow> distinct (map fst (p_formulas (snd sh)))"
    using assms by (simp add: processed_def list_all_iff)
  have "foldl flatten_sheet [] (p_sheets pd) = [] @ ?flat"
    by (rule flatten_all[where names = "{}", OF d cells ds]) simp_all
  then have ex: "export_formulas pd = ?flat" by (simp add: export_formulas_def)
  have rt: "reimport (export_formulas pd) = formula_map pd"
    unfolding ex formula_map_def by (rule reimport_concat[OF cells])
  have "length (reimport (export_formulas pd)) = length (export_formulas pd)"
    by (simp add: reimport_def)
  with rt have len: "length (export_formulas pd) = length (formula_map pd)" by simp
  have dk: "distinct (map fst (export_formulas pd))"
    unfolding export_formulas_def by (rule flatten_all_distinct) simp
  from rt dk len show ?thesis by simp
qed


theorem export_round_trip_witness:
  "processed
     \<lparr>filename = ''book.xlsx'',
      p_sheets =
        [(''Sheet1'', \<lparr>p_formulas = [(''A1'', ''=B1+1''), (''B1'', ''=2'')], p_values = []\<rparr>),
         (''Sheet2'', \<lparr>p_formulas = [(''A1'', ''=Sheet1!A1'')], p_values = []\<rparr>)]\<rparr>
   \<and> reimport
       (export_formulas
          \<lparr>filename = ''book.xlsx'',
           p_sheets =
             [(''Sheet1'', \<lparr>p_formulas = [(''A1'', ''=B1+1''), (''B1'', ''=2'')], p_values = []\<rparr>),
              (''Sheet2'', \<lparr>p_formulas = [(''A1'', ''=Sheet1!A1'')], p_values = []\<rparr>)]\<rparr>)
     = [((''Sheet1'', ''A1''), ''=B1+1''), ((''Sheet1'', ''B1''), ''=2''),
        ((''Sheet2'', ''A1''), ''=Sheet1!A1'')]"
proof -
  let ?pd = "\<lparr>filename = ''book.xlsx'',
      p_sheets =
        [(''Sheet1'', \<lparr>p_formulas = [(''A1'', ''=B1+1''), (''B1'', ''=2'')], p_values = []\<rparr>),
         (''Sheet2'', \<lparr>p_formulas = [(''A1'', ''=Sheet1!A1'')], p_values = []\<rparr>)]\<rparr>"
  have p: "processed ?pd"
    by (simp add: processed_def cell_ref_ok_def is_upper_def is_digit_def)
  have f: "formula_map ?pd = [((''Sheet1'', ''A1''), ''=B1+1''), ((''Sheet1'', ''B1''), ''=2''),
        ((''Sheet2'', ''A1''), ''=Sheet1!A1'')]"
    by (simp add: formula_map_def)
  from export_round_trip[OF p] p f show ?thesis by simp
qed

section \<open>Properties of the cycle detection\<close>

text \<open>
  The depth-first search returns: the bound on the depth is never reached, the path is
  never empty when its last element is removed, and a node on the recursion stack is on
  the path.
\<close>

lemma dfs_postI:
  "r = Ok (found, st') \<Longrightarrow> visited st \<subseteq> visited st' \<Longrightarrow>
   (\<not> found \<Longrightarrow> path st' = path st \<and> rec_stack st' = rec_stack st \<and> dfs_inv st') \<Longrightarrow>
   dfs_post st r"
  by (simp add: dfs_post_def)

lemma dfs_postE:
  assumes "dfs_post st r"
  obtains found st' where "r = Ok (found, st')" "visited st \<subseteq> visited st'"
    "\<not> found \<longrightarrow> path st' = path st \<and> rec_stack st' = rec_stack st \<and> dfs_inv st'"
  using assms by (auto simp: dfs_post_def split: answer.splits)

lemma neighbors_in_graph:
  "set (dict_get dependencies node []) \<subseteq> set (graph_nodes dependencies)"
proof (cases "map_of dependencies node")
  case None
  then show ?thesis by (simp add: dict_get_def)
next
  case (Some nbs)
  then have "(node, nbs) \<in> set dependencies" by (rule map_of_SomeD)
  then have "set nbs \<subseteq> set (concat (map snd dependencies))" by force
  with Some show ?thesis by (auto simp: dict_get_def graph_nodes_def)
qed

lemma card_unvisited_mono:
  assumes "finite U" "V \<subseteq> V'"
  shows "card (U - V') \<le> card (U - V)"
  by (rule card_mono) (use assms in auto)

lemma card_unvisited_less:
  assumes "finite U" "x \<in> U" "x \<notin> V" "card (U - V) \<le> Suc n"
  shows "card (U - insert x V) \<le> n"
proof -
  have "U - insert x V = (U - V) - {x}" by auto
  moreover have "x \<in> U - V" using assms by simp
  ultimately have "card (U - insert x V) = card (U - V) - 1"
    using assms(1) by (simp add: card_Diff_singleton)
  with assms(4) show ?thesis by simp
qed

lemma dfs_total:
  shows "card (set (graph_nodes dependencies) - visited st) \<le> n
           \<Longrightarrow> node \<in> set (graph_nodes dependencies) \<Longrightarrow> node \<notin> visited st \<Longrightarrow> dfs_inv st
           \<Longrightarrow> dfs_post st (has_cycle n dependencies node st)"
    and "card (set (graph_nodes dependencies) - visited st) \<le> n
           \<Longrightarrow> set nbs \<subseteq> set (graph_nodes dependencies) \<Longrightarrow> dfs_inv st
           \<Longrightarrow> dfs_post st (for_neighbors n dependencies nbs st)"
proof (induction n dependencies node st and n dependencies nbs st
       rule: has_cycle_for_neighbors.induct)
  case (1 dependencies node st)
  have "finite (set (graph_nodes dependencies))" by simp
  with 1 have "set (graph_nodes dependencies) - visited st = {}" by simp
  with 1 show ?case by auto
next
  case (2 n dependencies node st)
  let ?U = "set (graph_nodes dependencies)"
  let ?st1 = "st\<lparr>visited := insert node (visited st),
                 rec_stack := insert node (rec_stack st),
                 path := path st @ [node]\<rparr>"
  have fin: "finite ?U" by simp
  have c1: "card (?U - visited ?st1) \<le> n"
    using card_unvisited_less[OF fin, of node "visited st" n] 2(2,3,4) by simp
  have inv1: "dfs_inv ?st1" using 2(5) by (auto simp: dfs_inv_def)
  have nbs: "set (dict_get dependencies node []) \<subseteq> ?U" by (rule neighbors_in_graph)
  have "dfs_post ?st1 (for_neighbors n dependencies (dict_get dependencies node []) ?st1)"
    using 2(1) c1 nbs inv1 by simp
  then obtain found st' where
    r: "for_neighbors n dependencies (dict_get dependencies node []) ?st1 = Ok (found, st')"
    and v: "visited ?st1 \<subseteq> visited st'"
    and nf: "\<not> found \<longrightarrow> path st' = path ?st1 \<and> rec_stack st' = rec_stack ?st1 \<and> dfs_inv st'"
    by (rule dfs_postE)
  show ?case
  proof (cases found)
    case True
    with r v show ?thesis by (intro dfs_postI[of _ True st']) auto
  next
    case False
    from nf False have p: "path st' = path st @ [node]"
      and rs: "rec_stack st' = insert node (rec_stack st)" and inv': "dfs_inv st'" by simp_all
    have notin: "node \<notin> rec_stack st" using 2(4,5) by (auto simp: dfs_inv_def)
    let ?st2 = "st'\<lparr>path := butlast (path st'), rec_stack := rec_stack st' - {node}\<rparr>"
    have res: "has_cycle (Suc n) dependencies node st = Ok (False, ?st2)"
      using r False p rs by simp
    have rs2: "rec_stack ?st2 = rec_stack st" using rs notin by auto
    have p2: "path ?st2 = path st" using p by simp
    have inv2: "dfs_inv ?st2"
      using 2(5) v rs2 p2 by (auto simp: dfs_inv_def)
    from res v rs2 p2 inv2 show ?thesis
      by (intro dfs_postI[of _ False ?st2]) auto
  qed
next
  case (3 n dependencies st)
  then show ?case by (simp add: dfs_post_def)
next
  case (4 n dependencies neighbor rest st)
  let ?U = "set (graph_nodes dependencies)"
  have fin: "finite ?U" by simp
  have rest: "set rest \<subseteq> ?U" and nbU: "neighbor \<in> ?U" using 4(5) by simp_all
  show ?case
  proof (cases "neighbor \<notin> visited st")
    case True
    have "dfs_post st (has_cycle n dependencies neighbor st)"
      using 4(1)[OF True] 4(4) nbU True 4(6) by simp
    then obtain found st' where
      r: "has_cycle n dependencies neighbor st = Ok (found, st')"
      and v: "visited st \<subseteq> visited st'"
      and nf: "\<not> found \<longrightarrow> path st' = path st \<and> rec_stack st' = rec_stack st \<and> dfs_inv st'"
      by (rule dfs_postE)
    show ?thesis
    proof (cases found)
      case True
      with r v \<open>neighbor \<notin> visited st\<close> show ?thesis
        by (intro dfs_postI[of _ True st']) auto
    next
      case False
      from nf False have p: "path st' = path st" and rs: "rec_stack st' = rec_stack st"
        and inv': "dfs_inv st'" by simp_all
      have c': "card (?U - visited st') \<le> n"
        using card_unvisited_mono[OF fin v] 4(4) by simp
      have "dfs_post st' (for_neighbors n dependencies rest st')"
        using 4(2)[OF True r refl False] c' rest inv' by simp
      then obtain found2 st2 where
        r2: "for_neighbors n dependencies rest st' = Ok (found2, st2)"
        and v2: "visited st' \<subseteq> visited st2"
        and nf2: "\<not> found2 \<longrightarrow> path st2 = path st' \<and> rec_stack st2 = rec_stack st' \<and> dfs_inv st2"
        by (rule dfs_postE)
      have res: "for_neighbors n dependencies (neighbor # rest) st = Ok (found2, st2)"
        using True r False r2 by simp
      from res v v2 nf2 p rs show ?thesis
        by (intro dfs_postI[of _ found2 st2]) auto
    qed
  next
    case False
    note vis = False
    show ?thesis
    proof (cases "neighbor \<in> rec_stack st")
      case True
      with 4(6) have "neighbor \<in> set (path st)" by (simp add: dfs_inv_def)
      with vis True show ?thesis by (simp add: dfs_post_def Let_def)
    next
      case False
      have "dfs_post st (for_neighbors n dependencies rest st)"
        using 4(3)[OF vis False] 4(4) rest 4(6) by simp
      with vis False show ?thesis by simp
    qed
  qed
qed

lemma for_roots_total:
  assumes "card (set (graph_nodes dependencies)) \<le> n"
    and "set roots \<subseteq> set (graph_nodes dependencies)"
  shows "\<exists>acc'. for_roots n dependencies roots acc = Ok acc'"
  using assms(2)
proof (induction roots arbitrary: acc)
  case Nil
  then show ?case by simp
next
  case (Cons node rest)
  have rest: "set rest \<subseteq> set (graph_nodes dependencies)" using Cons.prems by simp
  show ?case
  proof (cases "node \<notin> fst acc")
    case True
    let ?st = "\<lparr>visited = fst acc, rec_stack = {}, path = [], circular_refs = snd acc\<rparr>"
    have "card (set (graph_nodes dependencies) - visited ?st)
          \<le> card (set (graph_nodes dependencies))"
      by (rule card_mono) auto
    with assms(1) have c: "card (set (graph_nodes dependencies) - visited ?st) \<le> n" by simp
    have "dfs_post ?st (has_cycle n dependencies node ?st)"
      by (rule dfs_total(1)[OF c]) (use Cons.prems True in \<open>simp_all add: dfs_inv_def\<close>)
    then obtain found st' where "has_cycle n dependencies node ?st = Ok (found, st')"
      by (rule dfs_postE)
    with True Cons.IH[OF rest, of "(visited st', circular_refs st')"] show ?thesis by simp
  next
    case False
    with Cons.IH[OF rest, of acc] show ?thesis by simp
  qed
qed

lemma detect_circular_references_returns:
  assumes "length (graph_nodes (build_dependencies fd)) \<le> limit"
  shows "\<exists>refs. detect_circular_references limit fd = Ok refs"
proof -
  let ?deps = "build_dependencies fd"
  have c: "card (set (graph_nodes ?deps)) \<le> limit"
    using card_length[of "graph_nodes ?deps"] assms by simp
  have r: "set (map fst ?deps) \<subseteq> set (graph_nodes ?deps)"
    by (auto simp: graph_nodes_def)
  from for_roots_total[OF c r, of "({}, [])"] obtain acc' where
    "for_roots limit ?deps (map fst ?deps) ({}, []) = Ok acc'"
    by blast
  then show ?thesis by (simp add: detect_circular_references_def Let_def)
qed

section \<open>Properties of the validation\<close>

lemma foldl_invariant:
  "P a \<Longrightarrow> (\<And>a x. P a \<Longrightarrow> P (f a x)) \<Longrightarrow> P (foldl f a xs)"
  by (induction xs arbitrary: a) simp_all

lemma foldl_reaches:
  assumes "x \<in> set xs" and "\<And>a. Q (f a x)" and "\<And>a y. Q a \<Longrightarrow> Q (f a y)"
  shows "Q (foldl f a xs)"
  using assms(1)
proof (induction xs arbitrary: a)
  case Nil
  then show ?case by simp
next
  case (Cons y ys)
  show ?case
  proof (cases "x = y")
    case True
    have "Q (f a y)" unfolding True[symmetric] by (rule assms(2))
    then have "Q (foldl f (f a y) ys)" by (rule foldl_invariant) (rule assms(3))
    then show ?thesis by simp
  next
    case False
    with Cons.prems have "x \<in> set ys" by simp
    from Cons.IH[OF this] show ?thesis by simp
  qed
qed

lemma validate_one_counts: "counts_ok vr \<Longrightarrow> counts_ok (validate_one K sheet sd vr e)"
  by (simp add: validate_one_def counts_ok_def Let_def)

lemma validate_one_keeps:
  "x \<in> set (syntax_errors vr) \<Longrightarrow> x \<in> set (syntax_errors (validate_one K sheet sd vr e))"
  by (simp add: validate_one_def Let_def)

lemma validate_one_records:
  "\<not> validate_formula_syntax (snd e) \<Longrightarrow>
   \<lparr>se_sheet = sheet, se_cell = fst e, se_formula = snd e, se_error = ''Invalid syntax''\<rparr>
     \<in> set (syntax_errors (validate_one K sheet sd vr e))"
  by (simp add: validate_one_def Let_def)

lemma validate_sheet_counts: "counts_ok vr \<Longrightarrow> counts_ok (validate_sheet K vr sh)"
  unfolding validate_sheet_def by (rule foldl_invariant) (simp_all add: validate_one_counts)

lemma validate_sheet_keeps:
  "x \<in> set (syntax_errors vr) \<Longrightarrow> x \<in> set (syntax_errors (validate_sheet K vr sh))"
  unfolding validate_sheet_def
  by (rule foldl_invariant[where P = "\<lambda>vr. x \<in> set (syntax_errors vr)"])
     (simp_all add: validate_one_keeps)

lemma validate_sheet_records:
  assumes "e \<in> set (formulas sd)" and "\<not> validate_formula_syntax (snd e)"
  shows "\<lparr>se_sheet = sheet, se_cell = fst e, se_formula = snd e, se_error = ''Invalid syntax''\<rparr>
     \<in> set (syntax_errors (validate_sheet K vr (sheet, sd)))"
  unfolding validate_sheet_def fst_conv snd_conv
  by (rule foldl_reaches[OF assms(1)]) (simp_all add: validate_one_records[OF assms(2)] validate_one_keeps)

lemma integrity_loop_counts: "counts_ok (integrity_loop fd)"
proof -
  have "counts_ok \<lparr>syntax_errors = [], circular_references = [], missing_references = [],
        total_formulas = 0, valid_formulas = 0, error_formulas = 0, warning_formulas = 0\<rparr>"
    by (simp add: counts_ok_def)
  then show ?thesis
    unfolding integrity_loop_def by (rule foldl_invariant) (rule validate_sheet_counts)
qed

lemma integrity_loop_records:
  assumes "(sheet, sd) \<in> set (sheets fd)" and "e \<in> set (formulas sd)"
    and "\<not> validate_formula_syntax (snd e)"
  shows "\<lparr>se_sheet = sheet, se_cell = fst e, se_formula = snd e, se_error = ''Invalid syntax''\<rparr>
     \<in> set (syntax_errors (integrity_loop fd))"
  unfolding integrity_loop_def
  by (rule foldl_reaches[OF assms(1)])
     (simp_all add: validate_sheet_records[OF assms(2,3)] validate_sheet_keeps)

lemma invalid_char_rejected:
  "c \<in> set formula \<Longrightarrow> c \<notin> valid_chars \<Longrightarrow> \<not> validate_formula_syntax formula"
  by (auto simp: validate_formula_syntax_def list_all_iff)

lemma dq_not_valid: "CHR 0x22 \<notin> valid_chars"
  by (simp add: valid_chars_def)

lemma validate_formula_integrity_returns:
  assumes "length (graph_nodes (build_dependencies fd)) \<le> limit"
  shows "\<exists>refs. validate_formula_integrity limit fd
           = Ok ((integrity_loop fd)\<lparr>circular_references := refs\<rparr>)"
proof -
  from detect_circular_references_returns[OF assms] obtain refs where
    "detect_circular_references limit fd = Ok refs" by blast
  then have "validate_formula_integrity limit fd
             = Ok ((integrity_loop fd)\<lparr>circular_references := refs\<rparr>)"
    by (simp add: validate_formula_integrity_def Let_def)
  then show ?thesis by (rule exI)
qed

lemma quoted_book_extracted:
  "extract_formulas_from_workbook ''book.xlsx'' quoted_book = Inr quoted_data"
  by code_simp

lemma quoted_data_validated:
  "validate_formula_integrity 1000 quoted_data =
     Ok \<lparr>syntax_errors =
           [\<lparr>se_sheet = ''Sheet1'', se_cell = ''B1'', se_formula = quoted_formula,
             se_error = ''Invalid syntax''\<rparr>],
         circular_references = [],
         missing_references =
           [\<lparr>mr_sheet = ''Sheet1'', mr_cell = ''C1'', mr_formula = ''=A1+D1'',
             mr_missing_references = [''D1'']\<rparr>],
         total_formulas = 2, valid_formulas = 0, error_formulas = 1,
         warning_formulas = 1\<rparr>"
  by code_simp

lemma invalid_formula_in_results:
  assumes "(sheet, sd) \<in> set (sheets fd)" and "(addr, formula) \<in> set (formulas sd)"
    and "c \<in> set formula" and "c \<notin> valid_chars"
    and "length (graph_nodes (build_dependencies fd)) \<le> limit"
  shows "\<not> validate_formula_syntax formula
       \<and> (\<exists>vr. validate_formula_integrity limit fd = Ok vr
              \<and> \<lparr>se_sheet = sheet, se_cell = addr, se_formula = formula,
                  se_error = ''Invalid syntax''\<rparr> \<in> set (syntax_errors vr)
              \<and> error_formulas vr = int (length (syntax_errors vr))
              \<and> (\<forall>mr \<in> set (missing_references vr).
                     validate_formula_syntax (mr_formula mr) \<and> mr_formula mr \<noteq> formula))"
proof -
  have bad: "\<not> validate_formula_syntax formula"
    using assms(3,4) by (rule invalid_char_rejected)
  obtain refs where r: "validate_formula_integrity limit fd
           = Ok ((integrity_loop fd)\<lparr>circular_references := refs\<rparr>)"
    using validate_formula_integrity_returns[OF assms(5)] by blast
  let ?vr = "(integrity_loop fd)\<lparr>circular_references := refs\<rparr>"
  have rec: "\<lparr>se_sheet = sheet, se_cell = addr, se_formula = formula,
             se_error = ''Invalid syntax''\<rparr> \<in> set (syntax_errors ?vr)"
    using integrity_loop_records[OF assms(1,2)] bad by simp
  have c: "counts_ok (integrity_loop fd)" by (rule integrity_loop_counts)
  then have e: "error_formulas ?vr = int (length (syntax_errors ?vr))"
    by (simp add: counts_ok_def)
  have m: "\<forall>mr \<in> set (missing_references ?vr).
             validate_formula_syntax (mr_formula mr) \<and> mr_formula mr \<noteq> formula"
    using c bad by (auto simp: counts_ok_def list_all_iff)
  from r rec e m have "\<exists>vr. validate_formula_integrity limit fd = Ok vr
              \<and> \<lparr>se_sheet = sheet, se_cell = addr, se_formula = formula,
                  se_error = ''Invalid syntax''\<rparr> \<in> set (syntax_errors vr)
              \<and> error_formulas vr = int (length (syntax_errors vr))
              \<and> (\<forall>mr \<in> set (missing_references vr).
                     validate_formula_syntax (mr_formula mr) \<and> mr_formula mr \<noteq> formula)"
    by (intro exI[of _ ?vr] conjI)
  with bad show ?thesis by (rule conjI)
qed

section \<open>A chain of references as long as the recursion limit\<close>

lemma chain_book_extracted:
  "extract_formulas_from_workbook ''chain.xlsx'' (chain_book 2) = Inr (chain_data 2)"
  by code_simp

lemma digits_value_snoc:
  "digits_value (ds @ [c]) = 10 * digits_value ds + (of_char c - 48)"
  by (simp add: digits_value_def)

lemma digits_value_str_nat: "digits_value (str_nat n) = n"
proof (induction n rule: str_nat.induct)
  case (1 n)
  show ?case
  proof (cases "n < 10")
    case True
    then have s: "str_nat n = [char_of (48 + n)]" by (subst str_nat.simps) simp
    have m: "(48 + n) mod 256 = 48 + n" using True by simp
    have "digits_value [char_of (48 + n)] = n"
      unfolding digits_value_def by (simp add: m)
    then show ?thesis unfolding s .
  next
    case False
    then have s: "str_nat n = str_nat (n div 10) @ [char_of (48 + n mod 10)]"
      by (subst str_nat.simps) simp
    have "n mod 10 < 10" by simp
    then have m: "(48 + n mod 10) mod 256 = 48 + n mod 10" by simp
    have "digits_value (str_nat n) = 10 * digits_value (str_nat (n div 10)) + n mod 10"
      unfolding s digits_value_snoc by (simp add: m)
    with 1[OF False] show ?thesis by simp
  qed
qed

lemma str_nat_inj:
  assumes "str_nat a = str_nat b"
  shows "a = b"
proof -
  have "digits_value (str_nat a) = digits_value (str_nat b)"
    using assms by (rule arg_cong)
  then show ?thesis by (simp only: digits_value_str_nat)
qed

lemma chain_cell_eq: "chain_cell i = chain_cell j \<longleftrightarrow> i = j"
  unfolding chain_cell_def using str_nat_inj[of "Suc i" "Suc j"] by auto

lemma chain_node_eq: "chain_node i = chain_node j \<longleftrightarrow> i = j"
  by (simp add: chain_node_def full_address_def chain_cell_eq)

lemma foldl_dict_set_fresh:
  assumes "distinct (map f es)" and "\<And>e. e \<in> set es \<Longrightarrow> f e \<notin> fst ` set acc"
  shows "foldl (\<lambda>d e. dict_set d (f e) (g e)) acc es = acc @ map (\<lambda>e. (f e, g e)) es"
  using assms
proof (induction es arbitrary: acc)
  case Nil
  then show ?case by simp
next
  case (Cons e es)
  have new: "dict_set acc (f e) (g e) = acc @ [(f e, g e)]"
    by (rule dict_set_new) (simp add: Cons.prems(2))
  have "foldl (\<lambda>d e. dict_set d (f e) (g e)) (acc @ [(f e, g e)]) es
        = (acc @ [(f e, g e)]) @ map (\<lambda>e. (f e, g e)) es"
  proof (rule Cons.IH)
    show "distinct (map f es)" using Cons.prems(1) by simp
  next
    fix x assume x: "x \<in> set es"
    have "f e \<notin> f ` set es" using Cons.prems(1) by simp
    with x have "f x \<noteq> f e" by (metis imageI)
    moreover have "f x \<notin> fst ` set acc" using Cons.prems(2) x by simp
    ultimately show "f x \<notin> fst ` set (acc @ [(f e, g e)])" by auto
  qed
  then show ?case by (simp add: new)
qed

lemma map_of_inj_keys:
  assumes "\<And>i j. k i = k j \<longleftrightarrow> i = j"
  shows "map_of (map (\<lambda>i. (k i, v i)) xs) (k j) = (if j \<in> set xs then Some (v j) else None)"
  by (induction xs) (auto simp: assms)

lemma chain_metadata_refs:
  assumes "i \<le> n"
  shows "metadata_refs (chain_sheet n) (chain_cell i)
         = (if i < n then [chain_cell (Suc i)] else [])"
proof (cases "i < n")
  case True
  then have "map_of (map (\<lambda>i. (chain_cell i,
                \<lparr>original_formula = ''='' @ chain_cell (Suc i), cell_address = chain_cell i,
                 referenced_cells = [chain_cell (Suc i)], referenced_ranges = [],
                 excel_functions = [], operators = [], constants = [],
                 formula_type = ''simple'', complexity_score = 1\<rparr>)) [0 ..< n]) (chain_cell i)
        = Some \<lparr>original_formula = ''='' @ chain_cell (Suc i), cell_address = chain_cell i,
                 referenced_cells = [chain_cell (Suc i)], referenced_ranges = [],
                 excel_functions = [], operators = [], constants = [],
                 formula_type = ''simple'', complexity_score = 1\<rparr>"
    by (subst map_of_inj_keys[where k = chain_cell]) (simp_all add: chain_cell_eq)
  with True show ?thesis
    by (simp add: metadata_refs_def chain_sheet_def chain_metadata_def map_add_def
        del: map_of_map)
next
  case False
  with assms have e: "i = n" by simp
  have "map_of (map (\<lambda>i. (chain_cell i,
                \<lparr>original_formula = ''='' @ chain_cell (Suc i), cell_address = chain_cell i,
                 referenced_cells = [chain_cell (Suc i)], referenced_ranges = [],
                 excel_functions = [], operators = [], constants = [],
                 formula_type = ''simple'', complexity_score = 1\<rparr>)) [0 ..< n]) (chain_cell n)
        = None"
    by (subst map_of_inj_keys[where k = chain_cell]) (simp_all add: chain_cell_eq)
  then show ?thesis
    by (simp add: e metadata_refs_def chain_sheet_def chain_metadata_def map_add_def
        del: map_of_map)
qed

lemma chain_dependencies: "build_dependencies (chain_data n) = chain_deps n"
proof -
  let ?f = "\<lambda>e::string \<times> string. full_address ''Sheet1'' (fst e)"
  let ?g = "\<lambda>e::string \<times> string.
              map (full_address ''Sheet1'') (metadata_refs (chain_sheet n) (fst e))"
  have keys: "map ?f (chain_formulas n) = map chain_node [0 ..< Suc n]"
    by (simp add: chain_formulas_def chain_node_def comp_def)
  have d: "distinct (map ?f (chain_formulas n))"
    unfolding keys by (auto simp: distinct_map inj_on_def chain_node_eq)
  have fs: "formulas (chain_sheet n) = chain_formulas n" by (simp add: chain_sheet_def)
  have fn: "add_formula_deps ''Sheet1'' (chain_sheet n) = (\<lambda>d e. dict_set d (?f e) (?g e))"
    by (intro ext) (simp add: add_formula_deps_def)
  have "build_dependencies (chain_data n)
        = foldl (add_formula_deps ''Sheet1'' (chain_sheet n)) [] (chain_formulas n)"
    by (simp add: build_dependencies_def chain_data_def fs)
  also have "\<dots> = foldl (\<lambda>d e. dict_set d (?f e) (?g e)) [] (chain_formulas n)"
    by (simp only: fn)
  also have "\<dots> = [] @ map (\<lambda>e. (?f e, ?g e)) (chain_formulas n)"
    by (rule foldl_dict_set_fresh[OF d]) simp
  also have "\<dots> = chain_deps n"
    by (simp add: chain_formulas_def chain_deps_def chain_node_def chain_metadata_refs comp_def)
  finally show ?thesis .
qed

lemma chain_neighbors:
  assumes "i < n"
  shows "dict_get (chain_deps n) (chain_node i) [] = [chain_node (Suc i)]"
proof -
  have "map_of (map (\<lambda>i. (chain_node i, [chain_node (Suc i)])) [0 ..< n]) (chain_node i)
        = Some [chain_node (Suc i)]"
    using assms by (subst map_of_inj_keys[where k = chain_node]) (simp_all add: chain_node_eq)
  then show ?thesis
    by (simp add: dict_get_def chain_deps_def map_add_def del: map_of_map)
qed

lemma chain_overflow:
  assumes "i + m = n" and "\<And>j. i \<le> j \<Longrightarrow> chain_node j \<notin> visited st"
  shows "has_cycle m (chain_deps n) (chain_node i) st = Raises recursion_error"
  using assms
proof (induction m arbitrary: i st)
  case 0
  show ?case by (simp add: recursion_error_def)
next
  case (Suc m)
  let ?st = "st\<lparr>visited := insert (chain_node i) (visited st),
               rec_stack := insert (chain_node i) (rec_stack st),
               path := path st @ [chain_node i]\<rparr>"
  from Suc.prems(1) have i: "i < n" and s: "Suc i + m = n" by simp_all
  have fresh: "\<And>j. Suc i \<le> j \<Longrightarrow> chain_node j \<notin> visited ?st"
    using Suc.prems(2) by (simp add: chain_node_eq)
  have deeper: "has_cycle m (chain_deps n) (chain_node (Suc i)) ?st = Raises recursion_error"
    by (rule Suc.IH[OF s fresh])
  have "chain_node (Suc i) \<notin> visited ?st" by (rule fresh) simp
  then have "for_neighbors m (chain_deps n) [chain_node (Suc i)] ?st = Raises recursion_error"
    by (simp add: deeper)
  then show ?case
    by (simp add: chain_neighbors[OF i])
qed

lemma chain_roots: "map fst (chain_deps n) = chain_node 0 # map chain_node [1 ..< Suc n]"
proof -
  have "map fst (chain_deps n) = map chain_node [0 ..< Suc n]"
    by (simp add: chain_deps_def comp_def)
  also have "[0 ..< Suc n] = 0 # [1 ..< Suc n]" by (simp add: upt_conv_Cons del: upt_Suc)
  finally show ?thesis by simp
qed

lemma chain_detection_raises:
  "detect_circular_references n (chain_data n) = Raises recursion_error"
proof -
  have "has_cycle n (chain_deps n) (chain_node 0)
          \<lparr>visited = {}, rec_stack = {}, path = [], circular_refs = []\<rparr>
        = Raises recursion_error"
    by (rule chain_overflow) simp_all
  then have "for_roots n (chain_deps n) (map fst (chain_deps n)) ({}, [])
             = Raises recursion_error"
    unfolding chain_roots by simp
  then show ?thesis
    by (simp add: detect_circular_references_def chain_dependencies Let_def)
qed

text \<open>
  C10. The syntax check rejects every formula with a character outside the whitelist, the
  double quote among them, and the loop of \<^verbatim>\<open>validate_formula_integrity\<close> records such
  a formula as a syntax error and not as a missing reference. That is all the code does
  for the statement as long as the search for circular references, which follows the loop,
  stays within the recursion limit. On a sheet whose cells form a chain of references as
  long as the frames that are left, the search raises \<^verbatim>\<open>RecursionError\<close>, nothing
  catches it, and the formula with the double quote at the end of the chain is reported
  nowhere: \<^verbatim>\<open>validate_formula_integrity\<close> returns no result at all.
\<close>

theorem validation_lost_on_long_chain:
  "(chain_cell limit, if_formula) \<in> set (formulas (chain_sheet limit))
   \<and> \<not> validate_formula_syntax if_formula
   \<and> validate_formula_integrity limit (chain_data limit)
       = Raises (RecursionError ''maximum recursion depth exceeded'')"
proof -
  have 1: "(chain_cell limit, if_formula) \<in> set (formulas (chain_sheet limit))"
    by (simp add: chain_sheet_def chain_formulas_def)
  have 2: "\<not> validate_formula_syntax if_formula" by code_simp
  have 3: "validate_formula_integrity limit (chain_data limit)
       = Raises (RecursionError ''maximum recursion depth exceeded'')"
    by (simp add: validate_formula_integrity_def Let_def chain_detection_raises
        recursion_error_def)
  from 1 2 3 show ?thesis by simp
qed

end
